theory Spec2Isabelle
  imports Main "HOL-Library.Word"
begin

unbundle bit_operations_syntax

section \<open>Bytes, exceptions and the struct module\<close>

text \<open>
  A Python \<open>bytes\<close> value is a sequence of integers in \<open>range(0, 256)\<close>: a list of
  8-bit words. Indexing a \<open>bytes\<close> value gives a Python \<open>int\<close>, read here with \<open>uint\<close>.
  Python's integers are unbounded: \<open>int\<close>.
\<close>

type_synonym byte = "8 word"

text \<open>The exceptions that the codec in \<open>fdisk/mbr.py\<close> can raise on a \<open>bytes\<close> source.\<close>

datatype error = AssertionError | ValueError | TypeError | IndexError | StructError

text \<open>Sequencing of fallible steps: the first raise ends the evaluation.\<close>

definition ebind :: "error + 'a \<Rightarrow> ('a \<Rightarrow> error + 'b) \<Rightarrow> error + 'b" where
  "ebind m f = (case m of Inl e \<Rightarrow> Inl e | Inr x \<Rightarrow> f x)"

text \<open>
  \<open>bytes([...])\<close> on a list of integers: raises \<open>ValueError\<close> unless every element is in
  \<open>range(0, 256)\<close>.
\<close>

fun bytes_of_ints :: "int list \<Rightarrow> error + byte list" where
  "bytes_of_ints [] = Inr []"
| "bytes_of_ints (x # xs) =
     (if 0 \<le> x \<and> x < 256
      then ebind (bytes_of_ints xs) (\<lambda>bs. Inr (word_of_int x # bs))
      else Inl ValueError)"

text \<open>The slice \<open>data[a:b]\<close> for non-negative bounds: clamped to the buffer, never raising.\<close>

definition slice :: "'a list \<Rightarrow> nat \<Rightarrow> nat \<Rightarrow> 'a list" where
  "slice data a b = take (b - a) (drop a data)"

text \<open>
  \<open>struct.pack("<I", x)\<close> and \<open>struct.pack("<H", x)\<close>: little-endian unsigned, raising
  \<open>struct.error\<close> when the argument is outside the format's range.
\<close>

definition pack_I :: "int \<Rightarrow> error + byte list" where
  "pack_I x =
     (if 0 \<le> x \<and> x < 2 ^ 32
      then Inr [word_of_int x, word_of_int (x div 2 ^ 8),
                word_of_int (x div 2 ^ 16), word_of_int (x div 2 ^ 24)]
      else Inl StructError)"

definition pack_H :: "int \<Rightarrow> error + byte list" where
  "pack_H x =
     (if 0 \<le> x \<and> x < 2 ^ 16
      then Inr [word_of_int x, word_of_int (x div 2 ^ 8)]
      else Inl StructError)"

text \<open>
  \<open>struct.unpack("<I", b)\<close> and \<open>struct.unpack("<H", b)\<close>: raise \<open>struct.error\<close> unless the
  buffer has exactly the size of the format.
\<close>

fun le_int :: "byte list \<Rightarrow> int" where
  "le_int [] = 0"
| "le_int (b # bs) = uint b + 256 * le_int bs"

definition unpack_I :: "byte list \<Rightarrow> error + int" where
  "unpack_I b = (if length b \<noteq> 4 then Inl StructError else Inr (le_int b))"

definition unpack_H :: "byte list \<Rightarrow> error + int" where
  "unpack_H b = (if length b \<noteq> 2 then Inl StructError else Inr (le_int b))"

text \<open>
  \<open>struct.unpack("<BxxxBxxxII", raw)\<close>: the buffer must have exactly 16 bytes; the
  result is the attribute byte, the type byte and the two 32-bit integers, the pad bytes
  being skipped.
\<close>

definition unpack_BxxxBxxxII :: "byte list \<Rightarrow> error + (int \<times> int \<times> int \<times> int)" where
  "unpack_BxxxBxxxII raw =
     (if length raw \<noteq> 16 then Inl StructError
      else Inr (uint (raw ! 0), uint (raw ! 4),
                le_int (slice raw 8 12), le_int (slice raw 12 16)))"

text \<open>
  \<open>io.BytesIO\<close>: \<open>seek(pos)\<close> followed by \<open>write(bs)\<close> overwrites the buffer from
  \<open>pos\<close> on, padding with zero bytes when \<open>pos\<close> is beyond the end and growing the
  buffer when the written bytes reach beyond it.
\<close>

definition wr_write :: "byte list \<Rightarrow> nat \<Rightarrow> byte list \<Rightarrow> byte list" where
  "wr_write buf pos bs =
     take pos buf @ replicate (pos - length buf) 0 @ bs @ drop (pos + length bs) buf"

section \<open>Partition-type registry\<close>

text \<open>
  The members of the \<open>IntEnum\<close> \<open>PartitionId\<close>. The names \<open>EX_FAT\<close>, \<open>HPFS\<close> and
  \<open>QNX2\<close> repeat the value 0x07 and are therefore aliases of the member \<open>NT_NTFS\<close>.
\<close>

datatype PartitionId =
    EMPTY | FAT12 | XENIX_ROOT | XENIX_USR | DOS_FAT16_LT_32M | DOS_EXTENDED | DOS_FAT16
  | NT_NTFS | OS2_LT_V13 | OS2_BOOT_MANAGER | WIN95_FAT32 | WIN95_FAT32_LBA
  | WIN95_FAT16_LBA | WIN95_EXT_LBA | HIDDEN_FAT12 | HIDDEN_DOS_FAT16_LT_32M
  | HIDDEN_DOS_FAT16 | HIDDEN_HPFS | HIDDEN_WIN95_FAT32 | HIDDEN_WIN95_FAT32_LBA
  | HIDDEN_WIN95_FAT16_LBA | PLAN_9 | LINUX_SWAP | LINUX | LINUX_EXTENDED | LINUX_LLVM
  | HIDDEN_LINUX | FREEBSD | OPENBSD | NETBSD | HFS_HFS_PLUS | GPT | EFI | LINUX_RAID

definition EX_FAT :: PartitionId where "EX_FAT = NT_NTFS"
definition HPFS :: PartitionId where "HPFS = NT_NTFS"
definition QNX2 :: PartitionId where "QNX2 = NT_NTFS"

text \<open>\<open>int(member)\<close>: the byte value of a member.\<close>

fun PartitionId_int :: "PartitionId \<Rightarrow> int" where
  "PartitionId_int EMPTY = 0x00"
| "PartitionId_int FAT12 = 0x01"
| "PartitionId_int XENIX_ROOT = 0x02"
| "PartitionId_int XENIX_USR = 0x03"
| "PartitionId_int DOS_FAT16_LT_32M = 0x04"
| "PartitionId_int DOS_EXTENDED = 0x05"
| "PartitionId_int DOS_FAT16 = 0x06"
| "PartitionId_int NT_NTFS = 0x07"
| "PartitionId_int OS2_LT_V13 = 0x08"
| "PartitionId_int OS2_BOOT_MANAGER = 0x0a"
| "PartitionId_int WIN95_FAT32 = 0x0b"
| "PartitionId_int WIN95_FAT32_LBA = 0x0c"
| "PartitionId_int WIN95_FAT16_LBA = 0x0e"
| "PartitionId_int WIN95_EXT_LBA = 0x0f"
| "PartitionId_int HIDDEN_FAT12 = 0x11"
| "PartitionId_int HIDDEN_DOS_FAT16_LT_32M = 0x14"
| "PartitionId_int HIDDEN_DOS_FAT16 = 0x16"
| "PartitionId_int HIDDEN_HPFS = 0x17"
| "PartitionId_int HIDDEN_WIN95_FAT32 = 0x1b"
| "PartitionId_int HIDDEN_WIN95_FAT32_LBA = 0x1c"
| "PartitionId_int HIDDEN_WIN95_FAT16_LBA = 0x1e"
| "PartitionId_int PLAN_9 = 0x39"
| "PartitionId_int LINUX_SWAP = 0x82"
| "PartitionId_int LINUX = 0x83"
| "PartitionId_int LINUX_EXTENDED = 0x85"
| "PartitionId_int LINUX_LLVM = 0x8e"
| "PartitionId_int HIDDEN_LINUX = 0x93"
| "PartitionId_int FREEBSD = 0xa5"
| "PartitionId_int OPENBSD = 0xa6"
| "PartitionId_int NETBSD = 0xa9"
| "PartitionId_int HFS_HFS_PLUS = 0xaf"
| "PartitionId_int GPT = 0xee"
| "PartitionId_int EFI = 0xef"
| "PartitionId_int LINUX_RAID = 0xfd"

text \<open>\<open>PartitionId.__members__.values()\<close>, in definition order, aliases included.\<close>

definition PartitionId_members :: "PartitionId list" where
  "PartitionId_members =
     [EMPTY, FAT12, XENIX_ROOT, XENIX_USR, DOS_FAT16_LT_32M, DOS_EXTENDED, DOS_FAT16,
      NT_NTFS, EX_FAT, HPFS, QNX2, OS2_LT_V13, OS2_BOOT_MANAGER, WIN95_FAT32,
      WIN95_FAT32_LBA, WIN95_FAT16_LBA, WIN95_EXT_LBA, HIDDEN_FAT12,
      HIDDEN_DOS_FAT16_LT_32M, HIDDEN_DOS_FAT16, HIDDEN_HPFS, HIDDEN_WIN95_FAT32,
      HIDDEN_WIN95_FAT32_LBA, HIDDEN_WIN95_FAT16_LBA, PLAN_9, LINUX_SWAP, LINUX,
      LINUX_EXTENDED, LINUX_LLVM, HIDDEN_LINUX, FREEBSD, OPENBSD, NETBSD, HFS_HFS_PLUS,
      GPT, EFI, LINUX_RAID]"

text \<open>
  \<open>PartitionId(x)\<close> for an integer that is the value of a member: the first member with
  that value. \<open>None\<close> stands for an integer that is the value of no member, that is, for
  \<open>x in PartitionId.__members__.values()\<close> being false.
\<close>

definition PartitionId_call :: "int \<Rightarrow> PartitionId option" where
  "PartitionId_call x = find (\<lambda>m. PartitionId_int m = x) PartitionId_members"

text \<open>The field type \<open>Union[int, PartitionId]\<close>.\<close>

datatype part_type = Known PartitionId | Raw int

fun part_type_int :: "part_type \<Rightarrow> int" where
  "part_type_int (Known m) = PartitionId_int m"
| "part_type_int (Raw x) = x"

section \<open>Address codecs\<close>

record LogicalBlockAddress =
  lba_sector :: int

definition LogicalBlockAddress_bytes :: "LogicalBlockAddress \<Rightarrow> error + byte list" where
  "LogicalBlockAddress_bytes a = pack_I (lba_sector a)"

record CHSAddress =
  cylinder :: int
  head :: int
  sector :: int

text \<open>\<open>CHSAddress.parse\<close>: \<open>b[0]\<close>, \<open>b[1]\<close>, \<open>b[2]\<close> raise \<open>IndexError\<close> on a short buffer.\<close>

fun CHSAddress_parse :: "byte list \<Rightarrow> error + CHSAddress" where
  "CHSAddress_parse (b0 # b1 # b2 # _) =
     Inr \<lparr>cylinder = uint b2 OR push_bit 8 (drop_bit 6 (uint b1)),
          head = uint b0,
          sector = uint b1 AND 0x3F\<rparr>"
| "CHSAddress_parse _ = Inl IndexError"

text \<open>
  \<open>CHSAddress.__bytes__\<close>: three assertions (the one on the cylinder admits 1024), then
  the three packed integers are handed to \<open>bytes([b1, b2, b3])\<close>.
\<close>

definition CHSAddress_bytes :: "CHSAddress \<Rightarrow> error + byte list" where
  "CHSAddress_bytes a =
     (if \<not> (0 \<le> cylinder a \<and> cylinder a \<le> 1024) then Inl AssertionError
      else if \<not> (0 \<le> head a \<and> head a \<le> 255) then Inl AssertionError
      else if \<not> (0 \<le> sector a \<and> sector a \<le> 63) then Inl AssertionError
      else bytes_of_ints
             [head a,
              sector a OR push_bit 6 (drop_bit 8 (cylinder a)),
              cylinder a AND 0xFF])"

section \<open>Partition entry codec\<close>

definition PARTITION_ENTRY_SIZE :: nat where
  "PARTITION_ENTRY_SIZE = 16"

record PartitionEntry =
  bootable :: bool
  partition_type :: part_type
  start_block_address :: LogicalBlockAddress
  sector_count :: int
  start_chs :: "CHSAddress option"
  end_chs :: "CHSAddress option"

text \<open>\<open>PartitionEntry.read\<close> on a \<open>bytes\<close> source; \<open>Inr None\<close> is the returned \<open>None\<close>.\<close>

definition PartitionEntry_read :: "byte list \<Rightarrow> error + PartitionEntry option" where
  "PartitionEntry_read raw =
     (if length raw < PARTITION_ENTRY_SIZE then Inr None
      else
        ebind (unpack_BxxxBxxxII raw) (\<lambda>(attrib, part_type, lba_start, count).
        let part_type' = (case PartitionId_call part_type of
                            Some m \<Rightarrow> Known m
                          | None \<Rightarrow> Raw part_type)
        in
        ebind (CHSAddress_parse (slice raw 1 4)) (\<lambda>chs1.
        ebind (CHSAddress_parse (slice raw 5 8)) (\<lambda>chs2.
        Inr (Some \<lparr>bootable = (attrib AND 0x80 \<noteq> 0),
                   partition_type = part_type',
                   start_block_address = \<lparr>lba_sector = lba_start\<rparr>,
                   sector_count = count,
                   start_chs = Some chs1,
                   end_chs = Some chs2\<rparr>)))))"

text \<open>\<open>bytes(x)\<close> for an optional CHS field: \<open>bytes(None)\<close> raises \<open>TypeError\<close>.\<close>

fun CHSAddress_option_bytes :: "CHSAddress option \<Rightarrow> error + byte list" where
  "CHSAddress_option_bytes None = Inl TypeError"
| "CHSAddress_option_bytes (Some a) = CHSAddress_bytes a"

text \<open>\<open>PartitionEntry.__bytes__\<close>: the six operands are evaluated from left to right.\<close>

definition PartitionEntry_bytes :: "PartitionEntry \<Rightarrow> error + byte list" where
  "PartitionEntry_bytes e =
     ebind (bytes_of_ints [if bootable e then 0x80 else 0x00]) (\<lambda>b0.
     ebind (CHSAddress_option_bytes (start_chs e)) (\<lambda>b1.
     ebind (bytes_of_ints [part_type_int (partition_type e)]) (\<lambda>b2.
     ebind (CHSAddress_option_bytes (end_chs e)) (\<lambda>b3.
     ebind (LogicalBlockAddress_bytes (start_block_address e)) (\<lambda>b4.
     ebind (pack_I (sector_count e)) (\<lambda>b5.
     Inr (b0 @ b1 @ b2 @ b3 @ b4 @ b5)))))))"

text \<open>
  The \<open>==\<close> that \<open>@dataclass\<close> generates compares the fields in order; a \<open>PartitionId\<close>
  member is an \<open>int\<close> and equals the plain integer of the same value.
\<close>

definition part_type_eq :: "part_type \<Rightarrow> part_type \<Rightarrow> bool" where
  "part_type_eq s t = (part_type_int s = part_type_int t)"

definition PartitionEntry_eq :: "PartitionEntry \<Rightarrow> PartitionEntry \<Rightarrow> bool" where
  "PartitionEntry_eq a b =
     (bootable a = bootable b
      \<and> part_type_eq (partition_type a) (partition_type b)
      \<and> start_block_address a = start_block_address b
      \<and> sector_count a = sector_count b
      \<and> start_chs a = start_chs b
      \<and> end_chs a = end_chs b)"

section \<open>Master boot record codec\<close>

definition UNIQUE_ID_OFFSET :: nat where "UNIQUE_ID_OFFSET = 0x1B8"
definition UNIQUE_ID_SIZE :: nat where "UNIQUE_ID_SIZE = 4"
definition PARTITION_OFFSETS :: "nat list" where
  "PARTITION_OFFSETS = [0x1BE, 0x1CE, 0x1DE, 0x1EE]"
definition VALID_BOOT_SECTOR_OFFSET :: nat where "VALID_BOOT_SECTOR_OFFSET = 0x1FE"
definition VALID_BOOT_SECTOR_SIZE :: nat where "VALID_BOOT_SECTOR_SIZE = 2"
definition VALID_MARKER :: int where "VALID_MARKER = 0xaa55"
definition MBR_SIZE :: nat where "MBR_SIZE = 512"

record MasterBootRecord =
  unique_id :: "int option"
  partitions :: "PartitionEntry option list"

text \<open>The list comprehension over \<open>PARTITION_OFFSETS\<close> in \<open>MasterBootRecord.read\<close>.\<close>

fun read_partitions :: "byte list \<Rightarrow> nat list \<Rightarrow> error + PartitionEntry option list" where
  "read_partitions data [] = Inr []"
| "read_partitions data (offset # offsets) =
     ebind (PartitionEntry_read (slice data offset (offset + PARTITION_ENTRY_SIZE))) (\<lambda>p.
     ebind (read_partitions data offsets) (\<lambda>ps. Inr (p # ps)))"

text \<open>\<open>MasterBootRecord.read\<close> on a \<open>bytes\<close> source; \<open>Inr None\<close> is the returned \<open>None\<close>.\<close>

definition MasterBootRecord_read :: "byte list \<Rightarrow> bool \<Rightarrow> error + MasterBootRecord option" where
  "MasterBootRecord_read data ignore_valid_marker =
     ebind (unpack_I (slice data UNIQUE_ID_OFFSET (UNIQUE_ID_OFFSET + UNIQUE_ID_SIZE))) (\<lambda>uid.
     ebind (read_partitions data PARTITION_OFFSETS) (\<lambda>ps.
     ebind (unpack_H (slice data VALID_BOOT_SECTOR_OFFSET
                        (VALID_BOOT_SECTOR_OFFSET + VALID_BOOT_SECTOR_SIZE))) (\<lambda>valid_marker.
     if ignore_valid_marker \<or> valid_marker = VALID_MARKER
     then Inr (Some \<lparr>unique_id = Some uid, partitions = ps\<rparr>)
     else Inr None)))"

text \<open>\<open>bytes(partition)\<close> for a partition slot: \<open>bytes(None)\<close> raises \<open>TypeError\<close>.\<close>

fun PartitionEntry_option_bytes :: "PartitionEntry option \<Rightarrow> error + byte list" where
  "PartitionEntry_option_bytes None = Inl TypeError"
| "PartitionEntry_option_bytes (Some e) = PartitionEntry_bytes e"

text \<open>
  The loop over \<open>enumerate(self.partitions)\<close> in \<open>MasterBootRecord.__bytes__\<close>:
  \<open>PARTITION_OFFSETS[i]\<close> raises \<open>IndexError\<close> from the fifth slot on.
\<close>

fun write_partitions ::
  "nat \<Rightarrow> PartitionEntry option list \<Rightarrow> byte list \<Rightarrow> error + byte list" where
  "write_partitions i [] wr = Inr wr"
| "write_partitions i (slot # rest) wr =
     (if i < length PARTITION_OFFSETS
      then ebind (PartitionEntry_option_bytes slot) (\<lambda>bs.
           write_partitions (Suc i) rest (wr_write wr (PARTITION_OFFSETS ! i) bs))
      else Inl IndexError)"

text \<open>\<open>self.unique_id or 0\<close>: \<open>None\<close> and 0 are both falsy.\<close>

fun unique_id_or_0 :: "int option \<Rightarrow> int" where
  "unique_id_or_0 None = 0"
| "unique_id_or_0 (Some u) = (if u = 0 then 0 else u)"

definition MasterBootRecord_bytes :: "MasterBootRecord \<Rightarrow> error + byte list" where
  "MasterBootRecord_bytes mbr =
     ebind (pack_I (unique_id_or_0 (unique_id mbr))) (\<lambda>uid.
     ebind (write_partitions 0 (partitions mbr)
              (wr_write (replicate 512 0) UNIQUE_ID_OFFSET uid)) (\<lambda>wr.
     ebind (pack_H VALID_MARKER) (\<lambda>marker.
     Inr (wr_write wr VALID_BOOT_SECTOR_OFFSET marker))))"

text \<open>The generated \<open>==\<close> on optional slots, slot lists and records.\<close>

fun PartitionEntry_option_eq :: "PartitionEntry option \<Rightarrow> PartitionEntry option \<Rightarrow> bool" where
  "PartitionEntry_option_eq None None = True"
| "PartitionEntry_option_eq (Some a) (Some b) = PartitionEntry_eq a b"
| "PartitionEntry_option_eq _ _ = False"

definition MasterBootRecord_eq :: "MasterBootRecord \<Rightarrow> MasterBootRecord \<Rightarrow> bool" where
  "MasterBootRecord_eq a b =
     (unique_id a = unique_id b
      \<and> list_all2 PartitionEntry_option_eq (partitions a) (partitions b))"

section \<open>Ranges of the on-disk format\<close>

text \<open>The values that the 3-byte and 16-byte layouts can hold.\<close>

definition CHSAddress_in_range :: "CHSAddress \<Rightarrow> bool" where
  "CHSAddress_in_range a =
     (0 \<le> cylinder a \<and> cylinder a \<le> 1023 \<and> 0 \<le> head a \<and> head a \<le> 255
      \<and> 0 \<le> sector a \<and> sector a \<le> 63)"

definition PartitionEntry_in_range :: "PartitionEntry \<Rightarrow> bool" where
  "PartitionEntry_in_range e =
     ((case start_chs e of Some a \<Rightarrow> CHSAddress_in_range a | None \<Rightarrow> False)
      \<and> (case end_chs e of Some a \<Rightarrow> CHSAddress_in_range a | None \<Rightarrow> False)
      \<and> 0 \<le> part_type_int (partition_type e) \<and> part_type_int (partition_type e) \<le> 255
      \<and> 0 \<le> lba_sector (start_block_address e) \<and> lba_sector (start_block_address e) < 2 ^ 32
      \<and> 0 \<le> sector_count e \<and> sector_count e < 2 ^ 32)"

section \<open>The record that the specification assembles from a sector\<close>

text \<open>
  Section 6 of the specification, the packed CHS triple: byte 0 is the head, the low six
  bits of byte 1 are the sector, its high two bits are bits 8 and 9 of the cylinder, and
  byte 2 holds the low eight bits of the cylinder.
\<close>

definition spec_chs :: "byte \<Rightarrow> byte \<Rightarrow> byte \<Rightarrow> CHSAddress" where
  "spec_chs b0 b1 b2 =
     \<lparr>cylinder = uint b2 + 256 * (uint b1 div 64), head = uint b0, sector = uint b1 mod 64\<rparr>"

text \<open>A little-endian unsigned 32-bit integer, written out byte by byte.\<close>

definition spec_u32 :: "byte \<Rightarrow> byte \<Rightarrow> byte \<Rightarrow> byte \<Rightarrow> int" where
  "spec_u32 b0 b1 b2 b3 = uint b0 + 256 * uint b1 + 65536 * uint b2 + 16777216 * uint b3"

text \<open>
  Section 4.2 of the specification, the 16-byte slot at offset \<open>off\<close> of a sector:
  attribute byte (bit 7 is the boot flag), start CHS, type byte looked up in the
  registry, end CHS, start LBA and sector count.
\<close>

definition spec_entry :: "byte list \<Rightarrow> nat \<Rightarrow> PartitionEntry" where
  "spec_entry data off =
     \<lparr>bootable = bit (data ! off) 7,
      partition_type =
        (case PartitionId_call (uint (data ! (off + 4))) of
           Some m \<Rightarrow> Known m
         | None \<Rightarrow> Raw (uint (data ! (off + 4)))),
      start_block_address =
        \<lparr>lba_sector = spec_u32 (data ! (off + 8)) (data ! (off + 9))
                                (data ! (off + 10)) (data ! (off + 11))\<rparr>,
      sector_count = spec_u32 (data ! (off + 12)) (data ! (off + 13))
                              (data ! (off + 14)) (data ! (off + 15)),
      start_chs = Some (spec_chs (data ! (off + 1)) (data ! (off + 2)) (data ! (off + 3))),
      end_chs = Some (spec_chs (data ! (off + 5)) (data ! (off + 6)) (data ! (off + 7)))\<rparr>"

text \<open>
  Section 4.3 of the specification, the record assembled from a sector: the disk
  signature at offset 0x1B8 and the four slots at 0x1BE, 0x1CE, 0x1DE and 0x1EE.
\<close>

definition spec_record :: "byte list \<Rightarrow> MasterBootRecord" where
  "spec_record data =
     \<lparr>unique_id = Some (spec_u32 (data ! 0x1B8) (data ! 0x1B9) (data ! 0x1BA) (data ! 0x1BB)),
      partitions = [Some (spec_entry data 0x1BE), Some (spec_entry data 0x1CE),
                    Some (spec_entry data 0x1DE), Some (spec_entry data 0x1EE)]\<rparr>"

section \<open>Facts on bytes and bit fields\<close>

lemma uint_byte_bounds: "0 \<le> uint (b::byte)" "uint (b::byte) < 256"
  using uint_lt2p[of b] by simp_all

lemma uint_word_of_int_byte: "0 \<le> k \<Longrightarrow> k < 256 \<Longrightarrow> uint (word_of_int k :: byte) = k"
  by (simp add: uint_word_of_int)

lemma and_3F: "(k::int) AND 0x3F = take_bit 6 k"
  by (simp add: take_bit_eq_mask mask_eq_exp_minus_1)

lemma and_FF: "(k::int) AND 0xFF = take_bit 8 k"
  by (simp add: take_bit_eq_mask mask_eq_exp_minus_1)

lemma take_bit_byte_range: "0 \<le> take_bit 8 (k::int)" "take_bit 8 (k::int) < 256"
  using take_bit_int_less_exp[of 8 k] by simp_all

lemma or_split_ident: "take_bit n (k::int) OR push_bit n (drop_bit n k) = k"
proof (rule bit_eqI)
  fix m
  show "bit (take_bit n k OR push_bit n (drop_bit n k)) m \<longleftrightarrow> bit k m"
    by (cases "m < n") (simp_all add: bit_simps)
qed

text \<open>The middle byte: a 6-bit sector below a 2-bit field.\<close>

lemma b2_range:
  assumes "0 \<le> s" "s \<le> 63" "0 \<le> d" "d < (4::int)"
  shows "0 \<le> s OR push_bit 6 d" "s OR push_bit 6 d < 256"
proof -
  have p: "0 \<le> push_bit 6 d" "push_bit 6 d < 2 ^ 8"
    using assms by (simp_all add: push_bit_eq_mult)
  show "0 \<le> s OR push_bit 6 d" using assms p by simp
  have "s < 2 ^ 8" using assms by simp
  from OR_upper[OF \<open>0 \<le> s\<close> this p(2)] show "s OR push_bit 6 d < 256" by simp
qed

lemma b2_low:
  assumes "0 \<le> s" "s \<le> (63::int)"
  shows "take_bit 6 (s OR push_bit 6 d) = s"
proof -
  have "take_bit 6 s = s" using assms by (simp add: take_bit_int_eq_self)
  then show ?thesis by (simp add: take_bit_push_bit)
qed

lemma b2_high:
  assumes "0 \<le> s" "s \<le> (63::int)"
  shows "drop_bit 6 (s OR push_bit 6 d) = d"
proof -
  have "drop_bit 6 s = 0" using assms by (simp add: drop_bit_eq_div)
  then show ?thesis by (simp add: drop_bit_push_bit)
qed

text \<open>The cylinder: a byte below a 2-bit field.\<close>

lemma cyl_range:
  assumes "0 \<le> lo" "lo < 256" "0 \<le> d" "d < (4::int)"
  shows "0 \<le> lo OR push_bit 8 d" "lo OR push_bit 8 d \<le> 1023"
proof -
  have p: "0 \<le> push_bit 8 d" "push_bit 8 d < 2 ^ 10"
    using assms by (simp_all add: push_bit_eq_mult)
  show "0 \<le> lo OR push_bit 8 d" using assms p by simp
  have "lo < 2 ^ 10" using assms by simp
  from OR_upper[OF \<open>0 \<le> lo\<close> this p(2)] show "lo OR push_bit 8 d \<le> 1023" by simp
qed

lemma cyl_low:
  assumes "0 \<le> lo" "lo < (256::int)"
  shows "take_bit 8 (lo OR push_bit 8 d) = lo"
proof -
  have "take_bit 8 lo = lo" using assms by (simp add: take_bit_int_eq_self)
  then show ?thesis by (simp add: take_bit_push_bit)
qed

lemma cyl_high:
  assumes "0 \<le> lo" "lo < (256::int)"
  shows "drop_bit 8 (lo OR push_bit 8 d) = d"
proof -
  have "drop_bit 8 lo = 0" using assms by (simp add: drop_bit_eq_div)
  then show ?thesis by (simp add: drop_bit_push_bit)
qed

lemma drop6_byte: "0 \<le> drop_bit 6 (uint (b::byte))" "drop_bit 6 (uint (b::byte)) < 4"
proof -
  have "0 \<le> uint b" "uint b < 256" using uint_byte_bounds[of b] by simp_all
  then show "0 \<le> drop_bit 6 (uint b)" "drop_bit 6 (uint b) < 4"
    unfolding drop_bit_eq_div by (simp_all add: pos_imp_zdiv_nonneg_iff)
qed

lemma drop8_cyl: "0 \<le> c \<Longrightarrow> c \<le> 1023 \<Longrightarrow> 0 \<le> drop_bit 8 (c::int) \<and> drop_bit 8 c < 4"
  unfolding drop_bit_eq_div by simp arith

section \<open>CHS addresses\<close>

lemma CHSAddress_bytes_in_range:
  assumes "0 \<le> c" "c \<le> 1023" "0 \<le> h" "h \<le> 255" "0 \<le> s" "s \<le> 63"
  shows "CHSAddress_bytes \<lparr>cylinder = c, head = h, sector = s\<rparr>
         = Inr [word_of_int h, word_of_int (s OR push_bit 6 (drop_bit 8 c)),
                word_of_int (take_bit 8 c)]"
proof -
  have d: "0 \<le> drop_bit 8 c" "drop_bit 8 c < 4" using drop8_cyl assms by simp_all
  have "0 \<le> s OR push_bit 6 (drop_bit 8 c)" "s OR push_bit 6 (drop_bit 8 c) < 256"
    using b2_range[OF assms(5,6) d] by simp_all
  moreover have "0 \<le> take_bit 8 c" "take_bit 8 c < 256"
    using take_bit_byte_range by simp_all
  ultimately show ?thesis
    using assms by (simp add: CHSAddress_bytes_def and_FF ebind_def)
qed

lemma CHSAddress_parse_of_bytes:
  assumes "0 \<le> c" "c \<le> 1023" "0 \<le> h" "h \<le> 255" "0 \<le> s" "s \<le> 63"
  shows "CHSAddress_parse [word_of_int h, word_of_int (s OR push_bit 6 (drop_bit 8 c)),
                           word_of_int (take_bit 8 c)]
         = Inr \<lparr>cylinder = c, head = h, sector = s\<rparr>"
proof -
  have d: "0 \<le> drop_bit 8 c" "drop_bit 8 c < 4" using drop8_cyl assms by simp_all
  have r2: "0 \<le> s OR push_bit 6 (drop_bit 8 c)" "s OR push_bit 6 (drop_bit 8 c) < 256"
    using b2_range[OF assms(5,6) d] by simp_all
  have r3: "0 \<le> take_bit 8 c" "take_bit 8 c < 256" using take_bit_byte_range by simp_all
  show ?thesis
    using assms r2 r3
    by (simp add: uint_word_of_int_byte and_3F b2_low b2_high or_split_ident
          del: take_bit_or drop_bit_or)
qed

lemma CHSAddress_parse_range:
  "0 \<le> uint (b2::byte) OR push_bit 8 (drop_bit 6 (uint (b1::byte)))"
  "uint b2 OR push_bit 8 (drop_bit 6 (uint b1)) \<le> 1023"
  "0 \<le> take_bit 6 (uint b1)" "take_bit 6 (uint b1) \<le> 63"
proof -
  show "0 \<le> uint b2 OR push_bit 8 (drop_bit 6 (uint b1))"
    "uint b2 OR push_bit 8 (drop_bit 6 (uint b1)) \<le> 1023"
    using cyl_range[OF uint_byte_bounds drop6_byte] by simp_all
  show "0 \<le> take_bit 6 (uint b1)" "take_bit 6 (uint b1) \<le> 63"
    using take_bit_int_less_exp[of 6 "uint b1"] by simp_all
qed

lemma CHSAddress_bytes_of_parse:
  "ebind (CHSAddress_parse [b0, b1, b2]) CHSAddress_bytes = Inr [b0, b1, b2]"
proof -
  let ?c = "uint b2 OR push_bit 8 (drop_bit 6 (uint b1))"
  let ?s = "take_bit 6 (uint b1)"
  have c: "0 \<le> ?c" "?c \<le> 1023" and s: "0 \<le> ?s" "?s \<le> 63"
    using CHSAddress_parse_range by simp_all
  have hi: "drop_bit 8 ?c = drop_bit 6 (uint b1)" by (rule cyl_high[OF uint_byte_bounds])
  have lo: "take_bit 8 ?c = uint b2" by (rule cyl_low[OF uint_byte_bounds])
  have mid: "?s OR push_bit 6 (drop_bit 6 (uint b1)) = uint b1" by (rule or_split_ident)
  show ?thesis
    using c s uint_byte_bounds[of b0] uint_byte_bounds[of b1] uint_byte_bounds[of b2]
    by (simp add: CHSAddress_bytes_def and_3F and_FF hi lo mid ebind_def
          del: take_bit_or drop_bit_or)
qed

lemma length_3_cases: "length b = 3 \<Longrightarrow> \<exists>b0 b1 b2. b = [b0, b1, b2]"
  by (auto simp add: numeral_3_eq_3 length_Suc_conv)

text \<open>
  Claim C5. For every CHS triple with cylinder in [0,1023], head in [0,255] and sector in
  [0,63], encoding succeeds with three bytes and decoding these bytes gives back the
  same address.
\<close>

theorem CHSAddress_roundtrip:
  assumes "0 \<le> c" "c \<le> 1023" "0 \<le> h" "h \<le> 255" "0 \<le> s" "s \<le> 63"
  shows "\<exists>bs. CHSAddress_bytes \<lparr>cylinder = c, head = h, sector = s\<rparr> = Inr bs
              \<and> length bs = 3
              \<and> CHSAddress_parse bs = Inr \<lparr>cylinder = c, head = h, sector = s\<rparr>"
  using CHSAddress_bytes_in_range[OF assms] CHSAddress_parse_of_bytes[OF assms] by simp

theorem CHSAddress_roundtrip_witness:
  "\<exists>bs. CHSAddress_bytes \<lparr>cylinder = 1023, head = 255, sector = 63\<rparr> = Inr bs
        \<and> length bs = 3
        \<and> CHSAddress_parse bs = Inr \<lparr>cylinder = 1023, head = 255, sector = 63\<rparr>"
  by (rule CHSAddress_roundtrip) simp_all

text \<open>
  Claim C9. For every 3-byte buffer, decoding succeeds, every decoded component is in
  range (cylinder at most 1023, head at most 255, sector at most 63, none negative), and
  encoding the decoded address succeeds and reproduces the buffer.
\<close>

theorem CHSAddress_reencode:
  assumes "length b = 3"
  shows "\<exists>a. CHSAddress_parse b = Inr a
             \<and> 0 \<le> cylinder a \<and> cylinder a \<le> 1023
             \<and> 0 \<le> head a \<and> head a \<le> 255
             \<and> 0 \<le> sector a \<and> sector a \<le> 63
             \<and> CHSAddress_bytes a = Inr b"
proof -
  obtain b0 b1 b2 where b: "b = [b0, b1, b2]"
    using length_3_cases[OF assms] by blast
  have "ebind (CHSAddress_parse [b0, b1, b2]) CHSAddress_bytes = Inr [b0, b1, b2]"
    by (rule CHSAddress_bytes_of_parse)
  then show ?thesis
    using CHSAddress_parse_range uint_byte_bounds[of b0]
    by (simp add: b ebind_def and_3F del: take_bit_or drop_bit_or)
qed

theorem CHSAddress_reencode_witness:
  "\<exists>a. CHSAddress_parse [0xFE, 0xFF, 0xFF] = Inr a
       \<and> 0 \<le> cylinder a \<and> cylinder a \<le> 1023
       \<and> 0 \<le> head a \<and> head a \<le> 255
       \<and> 0 \<le> sector a \<and> sector a \<le> 63
       \<and> CHSAddress_bytes a = Inr [0xFE, 0xFF, 0xFF]"
  by (rule CHSAddress_reencode) simp

text \<open>With cylinder 1024 the assertions pass and \<open>bytes([...])\<close> rejects the middle byte.\<close>

lemma CHSAddress_bytes_1024:
  assumes "0 \<le> h" "h \<le> 255" "0 \<le> s" "s \<le> 63"
  shows "CHSAddress_bytes \<lparr>cylinder = 1024, head = h, sector = s\<rparr> = Inl ValueError"
proof -
  have "(256::int) \<le> 256 OR s" using assms by (intro or_greater_eq) simp
  then have "\<not> s OR 256 < 256" by (simp add: or.commute)
  moreover have "push_bit 6 (drop_bit 8 (1024::int)) = 256"
    by (simp add: drop_bit_eq_div push_bit_eq_mult)
  ultimately show ?thesis using assms by (simp add: CHSAddress_bytes_def ebind_def)
qed

text \<open>
  Which addresses fail to encode, and how: the assertions reject what lies outside
  [0,1024], [0,255] and [0,63], and \<open>bytes([...])\<close> rejects cylinder 1024.
\<close>

lemma CHSAddress_bytes_failure:
  "(isl (CHSAddress_bytes a) \<longleftrightarrow>
      (cylinder a < 0 \<or> 1023 < cylinder a \<or> head a < 0 \<or> 255 < head a
       \<or> sector a < 0 \<or> 63 < sector a))
   \<and> CHSAddress_bytes \<lparr>cylinder = 1024, head = 0, sector = 0\<rparr> = Inl ValueError
   \<and> CHSAddress_bytes \<lparr>cylinder = 0, head = 256, sector = 0\<rparr> = Inl AssertionError
   \<and> CHSAddress_bytes \<lparr>cylinder = 0, head = 0, sector = 64\<rparr> = Inl AssertionError"
proof (intro conjI)
  obtain c h s where a: "a = \<lparr>cylinder = c, head = h, sector = s\<rparr>" by (cases a) simp
  show "isl (CHSAddress_bytes a) \<longleftrightarrow>
      (cylinder a < 0 \<or> 1023 < cylinder a \<or> head a < 0 \<or> 255 < head a
       \<or> sector a < 0 \<or> 63 < sector a)"
  proof (cases "0 \<le> c \<and> c \<le> 1023 \<and> 0 \<le> h \<and> h \<le> 255 \<and> 0 \<le> s \<and> s \<le> 63")
    case True
    then show ?thesis using CHSAddress_bytes_in_range[of c h s] by (simp add: a)
  next
    case False
    show ?thesis
    proof (cases "c = 1024 \<and> 0 \<le> h \<and> h \<le> 255 \<and> 0 \<le> s \<and> s \<le> 63")
      case True
      then show ?thesis using CHSAddress_bytes_1024[of h s] by (simp add: a)
    next
      case F2: False
      with False have "CHSAddress_bytes a = Inl AssertionError"
        by (auto simp add: a CHSAddress_bytes_def)
      with False show ?thesis by (auto simp add: a)
    qed
  qed
qed (simp_all add: CHSAddress_bytes_def ebind_def drop_bit_eq_div push_bit_eq_mult)

text \<open>
  Claim C2. On addresses with non-negative components, encoding fails exactly when a
  component is above its range (cylinder > 1023, head > 255 or sector > 63); in
  particular encoding (1024, 0, 0), (0, 256, 0) and (0, 0, 64) fails and produces no
  bytes.
\<close>

theorem CHSAddress_bytes_range_error:
  assumes "0 \<le> cylinder a" "0 \<le> head a" "0 \<le> sector a"
  shows "(isl (CHSAddress_bytes a) \<longleftrightarrow>
            (1023 < cylinder a \<or> 255 < head a \<or> 63 < sector a))
         \<and> isl (CHSAddress_bytes \<lparr>cylinder = 1024, head = 0, sector = 0\<rparr>)
         \<and> isl (CHSAddress_bytes \<lparr>cylinder = 0, head = 256, sector = 0\<rparr>)
         \<and> isl (CHSAddress_bytes \<lparr>cylinder = 0, head = 0, sector = 64\<rparr>)"
  using assms CHSAddress_bytes_failure[of a] by auto

theorem CHSAddress_bytes_range_error_witness:
  "isl (CHSAddress_bytes \<lparr>cylinder = 2000, head = 0, sector = 0\<rparr>)
   \<and> \<not> isl (CHSAddress_bytes \<lparr>cylinder = 1023, head = 255, sector = 63\<rparr>)
   \<and> isl (CHSAddress_bytes \<lparr>cylinder = 1024, head = 0, sector = 0\<rparr>)
   \<and> isl (CHSAddress_bytes \<lparr>cylinder = 0, head = 256, sector = 0\<rparr>)
   \<and> isl (CHSAddress_bytes \<lparr>cylinder = 0, head = 0, sector = 64\<rparr>)"
  using CHSAddress_bytes_range_error[of "\<lparr>cylinder = 2000, head = 0, sector = 0\<rparr>"]
    CHSAddress_bytes_range_error[of "\<lparr>cylinder = 1023, head = 255, sector = 63\<rparr>"]
  by simp

section \<open>Integers in little-endian order\<close>

lemma uint_word_of_int_mod: "uint (word_of_int k :: byte) = k mod 256"
  by (simp add: uint_word_of_int)

lemma le_int_pack:
  assumes "0 \<le> x" "x < 2 ^ 32"
  shows "le_int [word_of_int x, word_of_int (x div 2 ^ 8),
                word_of_int (x div 2 ^ 16), word_of_int (x div 2 ^ 24)] = x"
proof -
  define y1 where "y1 = x div 256"
  define y2 where "y2 = y1 div 256"
  define y3 where "y3 = y2 div 256"
  have d: "x div 2 ^ 8 = y1" "x div 2 ^ 16 = y2" "x div 2 ^ 24 = y3"
    by (simp_all add: y1_def y2_def y3_def zdiv_zmult2_eq)
  have "0 \<le> y3" "y3 < 256" using assms unfolding d(3)[symmetric] by simp_all
  then have m3: "y3 mod 256 = y3" by simp
  have "le_int [word_of_int x, word_of_int y1, word_of_int y2, word_of_int y3]
        = x mod 256 + 256 * (y1 mod 256 + 256 * (y2 mod 256 + 256 * y3))"
    by (simp add: uint_word_of_int_mod m3)
  also have "y2 mod 256 + 256 * y3 = y2" by (simp add: y3_def)
  also have "y1 mod 256 + 256 * y2 = y1" by (simp add: y2_def)
  also have "x mod 256 + 256 * y1 = x" by (simp add: y1_def)
  finally show ?thesis by (simp only: d)
qed

lemma le_int_pack_H:
  assumes "0 \<le> x" "x < 2 ^ 16"
  shows "le_int [word_of_int x, word_of_int (x div 2 ^ 8)] = x"
  using assms by (simp add: uint_word_of_int)

lemma word_of_int_le: "word_of_int (uint (a::byte) + 256 * k) = a"
proof (rule word_uint_eqI)
  have "uint (word_of_int (uint a + 256 * k) :: byte) = (uint a + 256 * k) mod 256"
    by (rule uint_word_of_int_mod)
  also have "\<dots> = uint a" using uint_byte_bounds[of a] by simp
  finally show "uint (word_of_int (uint a + 256 * k) :: byte) = uint a" .
qed

lemma div_le: "(uint (a::byte) + 256 * k) div 256 = k"
  using uint_byte_bounds[of a] by simp

lemma le_int_range: "0 \<le> le_int bs" "le_int bs < 256 ^ length bs"
proof (induction bs)
  case Nil
  show "0 \<le> le_int []" "le_int [] < 256 ^ length []" by simp_all
next
  case (Cons b bs)
  show "0 \<le> le_int (b # bs)" using Cons(1) by simp
  have "le_int bs + 1 \<le> 256 ^ length bs" using Cons(2) by simp
  then have "256 * (le_int bs + 1) \<le> 256 * 256 ^ length bs" by simp
  then show "le_int (b # bs) < 256 ^ length (b # bs)"
    using uint_byte_bounds[of b] by simp
qed

lemma pack_I_le_int: "pack_I (le_int [a, b, c, d]) = Inr [a, b, c, d]"
proof -
  let ?x = "le_int [a, b, c, d]"
  have r: "0 \<le> ?x" "?x < 2 ^ 32" using le_int_range[of "[a, b, c, d]"] by simp_all
  have 1: "?x div 2 ^ 8 = le_int [b, c, d]" using div_le[of a] by simp
  have "?x div 2 ^ 16 = (?x div 2 ^ 8) div 256" by (simp add: zdiv_zmult2_eq)
  then have 2: "?x div 2 ^ 16 = le_int [c, d]" using div_le[of b] by (simp only: 1) simp
  have "?x div 2 ^ 24 = (?x div 2 ^ 16) div 256" by (simp add: zdiv_zmult2_eq)
  then have 3: "?x div 2 ^ 24 = le_int [d]" using div_le[of c] by (simp only: 2) simp
  have w: "word_of_int ?x = a" "word_of_int (le_int [b, c, d]) = b"
    "word_of_int (le_int [c, d]) = c" "word_of_int (le_int [d]) = d"
    by (simp_all only: le_int.simps word_of_int_le)
  have "pack_I ?x = Inr [word_of_int ?x, word_of_int (?x div 2 ^ 8),
                word_of_int (?x div 2 ^ 16), word_of_int (?x div 2 ^ 24)]"
    using r unfolding pack_I_def by (simp only: if_True simp_thms)
  then show ?thesis by (simp only: 1 2 3 w)
qed

lemma bootable_bit: "(uint (w::byte) AND 0x80 = 0) = (\<not> bit w 7)"
proof -
  have "(0x80::int) = 2 ^ 7" by simp
  then have "(uint w AND 0x80 = 0) = (\<not> bit (uint w) 7)"
    by (simp only: and_exp_eq_0_iff_not_bit)
  then show ?thesis by (simp add: bit_uint_iff)
qed

lemma part_type_int_call:
  "part_type_int (case PartitionId_call x of Some m \<Rightarrow> Known m | None \<Rightarrow> Raw x) = x"
proof (cases "PartitionId_call x")
  case None
  then show ?thesis by simp
next
  case (Some m)
  then have "PartitionId_int m = x" unfolding PartitionId_call_def by (auto simp add: find_Some_iff)
  with Some show ?thesis by simp
qed

lemma PartitionId_call_known: "PartitionId_call 0x83 = Some LINUX" "PartitionId_call 0x99 = None"
  by (simp_all add: PartitionId_call_def PartitionId_members_def EX_FAT_def HPFS_def QNX2_def)

section \<open>Partition entries\<close>

lemma length_16_cases:
  "length b = 16 \<Longrightarrow>
     \<exists>x0 x1 x2 x3 x4 x5 x6 x7 x8 x9 x10 x11 x12 x13 x14 x15.
        b = [x0, x1, x2, x3, x4, x5, x6, x7, x8, x9, x10, x11, x12, x13, x14, x15]"
  by (auto simp add: numeral_eq_Suc length_Suc_conv)

lemma CHSAddress_roundtrip_bytes:
  assumes "CHSAddress_in_range a"
  shows "\<exists>b0 b1 b2. CHSAddress_bytes a = Inr [b0, b1, b2] \<and> CHSAddress_parse [b0, b1, b2] = Inr a"
proof -
  obtain c h s where a: "a = \<lparr>cylinder = c, head = h, sector = s\<rparr>" by (cases a) simp
  have r: "0 \<le> c" "c \<le> 1023" "0 \<le> h" "h \<le> 255" "0 \<le> s" "s \<le> 63"
    using assms by (simp_all add: a CHSAddress_in_range_def)
  show ?thesis
    unfolding a using CHSAddress_bytes_in_range[OF r] CHSAddress_parse_of_bytes[OF r] by blast
qed

lemma pack_I_roundtrip:
  assumes "0 \<le> x" "x < 2 ^ 32"
  shows "\<exists>a b c d. pack_I x = Inr [a, b, c, d] \<and> le_int [a, b, c, d] = x"
  using le_int_pack[OF assms] assms unfolding pack_I_def by (simp only: if_True simp_thms) blast

lemma CHSAddress_bytes_parsed:
  "CHSAddress_bytes \<lparr>cylinder = uint b2 OR push_bit 8 (drop_bit 6 (uint b1)),
                      head = uint b0, sector = uint b1 AND 0x3F\<rparr> = Inr [b0, b1, b2]"
  using CHSAddress_bytes_of_parse[of b0 b1 b2] by (simp add: ebind_def)

lemma PartitionEntry_read_16:
  "PartitionEntry_read [x0, x1, x2, x3, x4, x5, x6, x7, x8, x9, x10, x11, x12, x13, x14, x15]
   = ebind (CHSAddress_parse [x1, x2, x3]) (\<lambda>chs1.
     ebind (CHSAddress_parse [x5, x6, x7]) (\<lambda>chs2.
     Inr (Some \<lparr>bootable = bit x0 7,
                partition_type = (case PartitionId_call (uint x4) of
                                    Some m \<Rightarrow> Known m | None \<Rightarrow> Raw (uint x4)),
                start_block_address = \<lparr>lba_sector = le_int [x8, x9, x10, x11]\<rparr>,
                sector_count = le_int [x12, x13, x14, x15],
                start_chs = Some chs1,
                end_chs = Some chs2\<rparr>)))"
  by (simp add: PartitionEntry_read_def PARTITION_ENTRY_SIZE_def unpack_BxxxBxxxII_def
        slice_def ebind_def bootable_bit
      del: CHSAddress_parse.simps le_int.simps split: sum.split)

lemma bytes_of_ints_byte: "bytes_of_ints [uint (b::byte)] = Inr [b]"
  using uint_byte_bounds[of b] by (simp add: ebind_def)

lemma bytes_of_ints_flag: "bytes_of_ints [0x80] = Inr [0x80]" "bytes_of_ints [0x00] = Inr [0x00]"
  by (simp_all add: ebind_def)

lemma PartitionEntry_bytes_of_read:
  "ebind (PartitionEntry_read
            [x0, x1, x2, x3, x4, x5, x6, x7, x8, x9, x10, x11, x12, x13, x14, x15])
     (\<lambda>r. case r of None \<Rightarrow> Inr [] | Some e \<Rightarrow> PartitionEntry_bytes e)
   = Inr [if bit x0 7 then 0x80 else 0x00,
          x1, x2, x3, x4, x5, x6, x7, x8, x9, x10, x11, x12, x13, x14, x15]"
  unfolding PartitionEntry_read_16
  by (simp add: ebind_def PartitionEntry_bytes_def CHSAddress_bytes_parsed part_type_int_call
        bytes_of_ints_byte bytes_of_ints_flag LogicalBlockAddress_bytes_def pack_I_le_int
      del: le_int.simps bytes_of_ints.simps)

lemma bytes_of_ints_single:
  "0 \<le> t \<Longrightarrow> t \<le> 255 \<Longrightarrow> bytes_of_ints [t] = Inr [word_of_int t]"
  by (simp add: ebind_def)

lemma PartitionEntry_roundtrip_eq:
  assumes "PartitionEntry_in_range e"
  shows "\<exists>bs e'. PartitionEntry_bytes e = Inr bs \<and> length bs = 16
           \<and> PartitionEntry_read bs = Inr (Some e') \<and> PartitionEntry_eq e' e"
proof -
  obtain sc ec where chs: "start_chs e = Some sc" "end_chs e = Some ec"
    and rc: "CHSAddress_in_range sc" "CHSAddress_in_range ec"
    using assms by (auto simp add: PartitionEntry_in_range_def split: option.splits)
  let ?t = "part_type_int (partition_type e)"
  have rt: "0 \<le> ?t" "?t \<le> 255"
    and rl: "0 \<le> lba_sector (start_block_address e)" "lba_sector (start_block_address e) < 2 ^ 32"
    and rn: "0 \<le> sector_count e" "sector_count e < 2 ^ 32"
    using assms by (simp_all add: PartitionEntry_in_range_def)
  obtain s0 s1 s2 where s: "CHSAddress_bytes sc = Inr [s0, s1, s2]"
    "CHSAddress_parse [s0, s1, s2] = Inr sc"
    using CHSAddress_roundtrip_bytes[OF rc(1)] by blast
  obtain e0 e1 e2 where e: "CHSAddress_bytes ec = Inr [e0, e1, e2]"
    "CHSAddress_parse [e0, e1, e2] = Inr ec"
    using CHSAddress_roundtrip_bytes[OF rc(2)] by blast
  obtain l0 l1 l2 l3 where l: "pack_I (lba_sector (start_block_address e)) = Inr [l0, l1, l2, l3]"
    "le_int [l0, l1, l2, l3] = lba_sector (start_block_address e)"
    using pack_I_roundtrip[OF rl] by blast
  obtain n0 n1 n2 n3 where n: "pack_I (sector_count e) = Inr [n0, n1, n2, n3]"
    "le_int [n0, n1, n2, n3] = sector_count e"
    using pack_I_roundtrip[OF rn] by blast
  let ?bs = "[if bootable e then 0x80 else 0x00, s0, s1, s2, word_of_int ?t, e0, e1, e2,
              l0, l1, l2, l3, n0, n1, n2, n3]"
  have enc: "PartitionEntry_bytes e = Inr ?bs"
    by (simp add: PartitionEntry_bytes_def chs s(1) e(1) l(1) n(1) bytes_of_ints_single[OF rt]
          bytes_of_ints_flag LogicalBlockAddress_bytes_def ebind_def
        del: bytes_of_ints.simps)
  have ut: "uint (word_of_int ?t :: byte) = ?t"
    using rt by (simp add: uint_word_of_int_byte)
  let ?e' = "\<lparr>bootable = bootable e,
              partition_type = (case PartitionId_call ?t of
                                  Some m \<Rightarrow> Known m | None \<Rightarrow> Raw ?t),
              start_block_address = \<lparr>lba_sector = lba_sector (start_block_address e)\<rparr>,
              sector_count = sector_count e,
              start_chs = Some sc, end_chs = Some ec\<rparr>"
  have dec: "PartitionEntry_read ?bs = Inr (Some ?e')"
    unfolding PartitionEntry_read_16
    by (simp add: s(2) e(2) l(2) n(2) ut ebind_def
        del: CHSAddress_parse.simps le_int.simps split: option.split)
  have "PartitionEntry_eq ?e' e"
    by (simp add: PartitionEntry_eq_def part_type_eq_def part_type_int_call chs)
  with enc dec show ?thesis by (intro exI[of _ ?bs] exI[of _ ?e']) simp
qed

text \<open>
  Claim C10. For every 16-byte buffer, decoding succeeds and encoding the decoded entry
  reproduces bytes 1 to 15 of the buffer, with byte 0 equal to 0x80 when bit 7 of the
  buffer's byte 0 is set and to 0x00 otherwise.
\<close>

theorem PartitionEntry_reencode:
  assumes "length b = 16"
  shows "\<exists>e. PartitionEntry_read b = Inr (Some e)
             \<and> PartitionEntry_bytes e = Inr ((if bit (b ! 0) 7 then 0x80 else 0x00) # tl b)"
proof -
  obtain x0 x1 x2 x3 x4 x5 x6 x7 x8 x9 x10 x11 x12 x13 x14 x15
    where b: "b = [x0, x1, x2, x3, x4, x5, x6, x7, x8, x9, x10, x11, x12, x13, x14, x15]"
    using length_16_cases[OF assms] by blast
  obtain e where r: "PartitionEntry_read b = Inr (Some e)"
    unfolding b PartitionEntry_read_16 by (simp add: ebind_def)
  show ?thesis
    using PartitionEntry_bytes_of_read[of x0 x1 x2 x3 x4 x5 x6 x7 x8 x9 x10 x11 x12 x13 x14 x15] r
    unfolding b by (simp add: ebind_def)
qed


theorem PartitionEntry_reencode_witness:
  "\<exists>e. PartitionEntry_read
          [0xFF, 0xFE, 0xFF, 0xFF, 0x83, 0x01, 0x02, 0x03, 0x04, 0x05, 0x06, 0x07, 0x08,
           0x09, 0x0A, 0x0B] = Inr (Some e)
       \<and> PartitionEntry_bytes e
           = Inr [0x80, 0xFE, 0xFF, 0xFF, 0x83, 0x01, 0x02, 0x03, 0x04, 0x05, 0x06, 0x07,
                  0x08, 0x09, 0x0A, 0x0B]"
  using PartitionEntry_reencode
    [of "[0xFF, 0xFE, 0xFF, 0xFF, 0x83, 0x01, 0x02, 0x03, 0x04, 0x05, 0x06, 0x07, 0x08,
          0x09, 0x0A, 0x0B]"]
  by simp

text \<open>
  Claim C8. Decoding a 16-byte entry whose type byte at offset 4 is 0x83 gives the member
  \<open>LINUX\<close> as partition type; decoding one whose type byte is 0x99 gives the plain
  integer 0x99, and encoding that entry writes 0x99 again at offset 4.
\<close>

theorem PartitionEntry_type_mapping:
  assumes "length b = 16"
  shows "(b ! 4 = 0x83 \<longrightarrow>
            (\<exists>e. PartitionEntry_read b = Inr (Some e) \<and> partition_type e = Known LINUX))
         \<and> (b ! 4 = 0x99 \<longrightarrow>
            (\<exists>e bs. PartitionEntry_read b = Inr (Some e) \<and> partition_type e = Raw 0x99
                 \<and> PartitionEntry_bytes e = Inr bs \<and> length bs = 16 \<and> bs ! 4 = 0x99))"
proof -
  obtain x0 x1 x2 x3 x4 x5 x6 x7 x8 x9 x10 x11 x12 x13 x14 x15
    where b: "b = [x0, x1, x2, x3, x4, x5, x6, x7, x8, x9, x10, x11, x12, x13, x14, x15]"
    using length_16_cases[OF assms] by blast
  obtain e where r: "PartitionEntry_read b = Inr (Some e)"
    and t: "partition_type e = (case PartitionId_call (uint x4) of
                                  Some m \<Rightarrow> Known m | None \<Rightarrow> Raw (uint x4))"
    unfolding b PartitionEntry_read_16 by (simp add: ebind_def)
  have enc: "PartitionEntry_bytes e
             = Inr [if bit x0 7 then 0x80 else 0x00,
                    x1, x2, x3, x4, x5, x6, x7, x8, x9, x10, x11, x12, x13, x14, x15]"
    using PartitionEntry_bytes_of_read[of x0 x1 x2 x3 x4 x5 x6 x7 x8 x9 x10 x11 x12 x13 x14 x15] r
    unfolding b by (simp add: ebind_def)
  have "x4 = 0x83 \<Longrightarrow> partition_type e = Known LINUX"
    by (simp add: t PartitionId_call_known)
  moreover have "x4 = 0x99 \<Longrightarrow> partition_type e = Raw 0x99"
    by (simp add: t PartitionId_call_known)
  ultimately show ?thesis using r enc by (auto simp add: b)
qed

theorem PartitionEntry_type_mapping_witness:
  "(\<exists>e. PartitionEntry_read [0, 0, 0, 0, 0x83, 0, 0, 0, 0, 0, 0, 0, 0, 0, 0, 0] = Inr (Some e)
        \<and> partition_type e = Known LINUX)
   \<and> (\<exists>e bs. PartitionEntry_read [0, 0, 0, 0, 0x99, 0, 0, 0, 0, 0, 0, 0, 0, 0, 0, 0]
                = Inr (Some e)
        \<and> partition_type e = Raw 0x99
        \<and> PartitionEntry_bytes e = Inr bs \<and> length bs = 16 \<and> bs ! 4 = 0x99)"
  using PartitionEntry_type_mapping[of "[0, 0, 0, 0, 0x83, 0, 0, 0, 0, 0, 0, 0, 0, 0, 0, 0]"]
    PartitionEntry_type_mapping[of "[0, 0, 0, 0, 0x99, 0, 0, 0, 0, 0, 0, 0, 0, 0, 0, 0]"]
  by simp

text \<open>
  Claim C7. For every entry of the data model (type value in [0,255], start sector and
  sector count unsigned 32-bit) whose two CHS fields are present and in range, encoding
  succeeds with 16 bytes and decoding them gives an entry equal to the original under
  the generated \<open>==\<close>: boot flag, partition type, start sector, sector count and both
  CHS fields are preserved.
\<close>

theorem PartitionEntry_roundtrip:
  assumes "start_chs e = Some sc" "CHSAddress_in_range sc"
    and "end_chs e = Some ec" "CHSAddress_in_range ec"
    and "0 \<le> part_type_int (partition_type e)" "part_type_int (partition_type e) \<le> 255"
    and "0 \<le> lba_sector (start_block_address e)" "lba_sector (start_block_address e) < 2 ^ 32"
    and "0 \<le> sector_count e" "sector_count e < 2 ^ 32"
  shows "\<exists>bs e'. PartitionEntry_bytes e = Inr bs \<and> length bs = 16
           \<and> PartitionEntry_read bs = Inr (Some e') \<and> PartitionEntry_eq e' e"
proof (rule PartitionEntry_roundtrip_eq)
  show "PartitionEntry_in_range e"
    using assms by (simp add: PartitionEntry_in_range_def)
qed

theorem PartitionEntry_roundtrip_witness:
  "\<exists>bs e'. PartitionEntry_bytes
             \<lparr>bootable = True, partition_type = Raw 0x83,
              start_block_address = \<lparr>lba_sector = 2048\<rparr>, sector_count = 4294967295,
              start_chs = Some \<lparr>cylinder = 1023, head = 255, sector = 63\<rparr>,
              end_chs = Some \<lparr>cylinder = 0, head = 1, sector = 1\<rparr>\<rparr> = Inr bs
        \<and> length bs = 16
        \<and> PartitionEntry_read bs = Inr (Some e')
        \<and> PartitionEntry_eq e'
             \<lparr>bootable = True, partition_type = Raw 0x83,
              start_block_address = \<lparr>lba_sector = 2048\<rparr>, sector_count = 4294967295,
              start_chs = Some \<lparr>cylinder = 1023, head = 255, sector = 63\<rparr>,
              end_chs = Some \<lparr>cylinder = 0, head = 1, sector = 1\<rparr>\<rparr>"
  by (rule PartitionEntry_roundtrip[where sc = "\<lparr>cylinder = 1023, head = 255, sector = 63\<rparr>"
        and ec = "\<lparr>cylinder = 0, head = 1, sector = 1\<rparr>"])
     (simp_all add: CHSAddress_in_range_def)

section \<open>Decoding a master boot record\<close>

lemma length_slice: "length (slice data a b) = min (b - a) (length data - a)"
  by (simp add: slice_def)

lemma nth_slice: "i < b - a \<Longrightarrow> a + i < length data \<Longrightarrow> slice data a b ! i = data ! (a + i)"
  by (simp add: slice_def)

lemma length_2_cases: "length b = 2 \<Longrightarrow> \<exists>b0 b1. b = [b0, b1]"
  by (auto simp add: numeral_2_eq_2 length_Suc_conv)

lemma length_4_cases: "length b = 4 \<Longrightarrow> \<exists>b0 b1 b2 b3. b = [b0, b1, b2, b3]"
  by (auto simp add: numeral_eq_Suc length_Suc_conv)

lemma PartitionEntry_read_total:
  assumes "length raw = 16"
  shows "\<exists>e. PartitionEntry_read raw = Inr (Some e)"
proof -
  obtain x0 x1 x2 x3 x4 x5 x6 x7 x8 x9 x10 x11 x12 x13 x14 x15
    where b: "raw = [x0, x1, x2, x3, x4, x5, x6, x7, x8, x9, x10, x11, x12, x13, x14, x15]"
    using length_16_cases[OF assms] by blast
  show ?thesis unfolding b PartitionEntry_read_16 by (simp add: ebind_def)
qed

lemma PartitionEntry_read_short: "length raw < 16 \<Longrightarrow> PartitionEntry_read raw = Inr None"
  by (simp add: PartitionEntry_read_def PARTITION_ENTRY_SIZE_def)

lemma PartitionEntry_read_slice:
  "\<exists>r. PartitionEntry_read (slice data a (a + 16)) = Inr r
       \<and> (a + 16 \<le> length data \<longrightarrow> r \<noteq> None)"
proof (cases "a + 16 \<le> length data")
  case True
  then have "length (slice data a (a + 16)) = 16" by (simp add: length_slice)
  from PartitionEntry_read_total[OF this] True show ?thesis by auto
next
  case False
  then have "length (slice data a (a + 16)) < 16" by (simp add: length_slice)
  from PartitionEntry_read_short[OF this] False show ?thesis by simp
qed

lemma read_partitions_ok:
  "\<exists>ps. read_partitions data offsets = Inr ps \<and> length ps = length offsets
        \<and> ((\<forall>a \<in> set offsets. a + 16 \<le> length data) \<longrightarrow> list_all (\<lambda>p. p \<noteq> None) ps)"
proof (induction offsets)
  case Nil
  show ?case by simp
next
  case (Cons a offsets)
  obtain r where r: "PartitionEntry_read (slice data a (a + 16)) = Inr r"
    "a + 16 \<le> length data \<longrightarrow> r \<noteq> None"
    using PartitionEntry_read_slice by blast
  obtain ps where ps: "read_partitions data offsets = Inr ps" "length ps = length offsets"
    "(\<forall>a \<in> set offsets. a + 16 \<le> length data) \<longrightarrow> list_all (\<lambda>p. p \<noteq> None) ps"
    using Cons.IH by blast
  show ?case using r ps by (simp add: PARTITION_ENTRY_SIZE_def ebind_def)
qed

lemma unpack_I_slice:
  "a + 4 \<le> length data \<Longrightarrow> \<exists>u. unpack_I (slice data a (a + 4)) = Inr u"
  by (simp add: unpack_I_def length_slice)

lemma unpack_I_slice_short:
  "length data < a + 4 \<Longrightarrow> unpack_I (slice data a (a + 4)) = Inl StructError"
  by (simp add: unpack_I_def length_slice)

lemma unpack_H_slice_short:
  "length data < a + 2 \<Longrightarrow> unpack_H (slice data a (a + 2)) = Inl StructError"
  by (simp add: unpack_H_def length_slice)

lemma slice_2:
  assumes "a + 2 \<le> length data"
  shows "slice data a (a + 2) = [data ! a, data ! (a + 1)]"
proof (rule nth_equalityI)
  show "length (slice data a (a + 2)) = length [data ! a, data ! (a + 1)]"
    using assms by (simp add: length_slice)
  fix i assume "i < length (slice data a (a + 2))"
  then have "i < 2" by (simp add: length_slice)
  then have "i = 0 \<or> i = 1" by auto
  then show "slice data a (a + 2) ! i = [data ! a, data ! (a + 1)] ! i"
    using assms by (auto simp add: slice_def)
qed

lemma mod_le: "(uint (a::byte) + 256 * k) mod 256 = uint a"
  using uint_byte_bounds[of a] by simp

lemma marker_bytes: "(le_int [x, y] = VALID_MARKER) = (x = 0x55 \<and> y = 0xAA)"
proof
  assume "le_int [x, y] = VALID_MARKER"
  then have e: "uint x + 256 * uint y = 43605" by (simp add: VALID_MARKER_def)
  have "uint x = (uint x + 256 * uint y) mod 256" by (simp only: mod_le)
  also have "\<dots> = 85" unfolding e by simp
  finally have "uint x = 85" .
  have "uint y = (uint x + 256 * uint y) div 256" by (simp only: div_le)
  also have "\<dots> = 170" unfolding e by simp
  finally have "uint y = 170" .
  have "uint x = uint (0x55::byte)" "uint y = uint (0xAA::byte)"
    using \<open>uint x = 85\<close> \<open>uint y = 170\<close> by simp_all
  then show "x = 0x55 \<and> y = 0xAA" by (simp only: word_uint_eq_iff)
next
  assume "x = 0x55 \<and> y = 0xAA"
  then show "le_int [x, y] = VALID_MARKER" by (simp add: VALID_MARKER_def)
qed

lemma MasterBootRecord_read_short:
  assumes "length data < 512"
  shows "MasterBootRecord_read data ignore_valid_marker = Inl StructError"
proof (cases "length data < 444")
  case True
  then show ?thesis
    using unpack_I_slice_short[of data 440]
    by (simp add: MasterBootRecord_read_def UNIQUE_ID_OFFSET_def UNIQUE_ID_SIZE_def ebind_def)
next
  case False
  then obtain u where u: "unpack_I (slice data 440 444) = Inr u"
    using unpack_I_slice[of 440 data] by auto
  obtain ps where ps: "read_partitions data PARTITION_OFFSETS = Inr ps"
    using read_partitions_ok by blast
  have "unpack_H (slice data 510 512) = Inl StructError"
    using unpack_H_slice_short[of data 510] assms by simp
  then show ?thesis
    by (simp add: MasterBootRecord_read_def UNIQUE_ID_OFFSET_def UNIQUE_ID_SIZE_def
          VALID_BOOT_SECTOR_OFFSET_def VALID_BOOT_SECTOR_SIZE_def u ps ebind_def)
qed

text \<open>
  Claim C4. A buffer of 511 bytes does not give \<open>None\<close> and does not raise the
  \<open>ValueError\<close> of an unsupported source: the call ends in the \<open>struct.error\<close> raised by
  \<open>struct.unpack("<H", ...)\<close> on the one byte left at offset 0x1FE.
\<close>

theorem MasterBootRecord_read_511:
  "MasterBootRecord_read (replicate 511 0) False = Inl StructError"
  by (rule MasterBootRecord_read_short) simp

lemma spec_chs_parse: "CHSAddress_parse [b0, b1, b2] = Inr (spec_chs b0 b1 b2)"
proof -
  have m: "uint b1 AND 0x3F = uint b1 mod 64" by (simp add: and_3F take_bit_eq_mod)
  have d: "drop_bit 6 (uint b1) = uint b1 div 64" by (simp add: drop_bit_eq_div)
  have "uint b2 OR push_bit 8 (uint b1 div 64) = uint b2 + push_bit 8 (uint b1 div 64)"
    by (rule disjunctive_add_eq_or[symmetric]) (simp add: bit_eq_iff bit_simps bit_uint_iff, auto simp add: bit_simps dest: bit_imp_le_length)
  then show ?thesis by (simp add: spec_chs_def m d push_bit_eq_mult del: take_bit_or)
qed


lemma spec_u32_le_int: "le_int [b0, b1, b2, b3] = spec_u32 b0 b1 b2 b3"
  by (simp add: spec_u32_def)

lemma slice_4:
  assumes "a + 4 \<le> length data"
  shows "slice data a (a + 4) = [data ! a, data ! (a + 1), data ! (a + 2), data ! (a + 3)]"
proof -
  have l: "length (slice data a (a + 4)) = 4" using assms by (simp add: length_slice)
  obtain x0 x1 x2 x3 where s: "slice data a (a + 4) = [x0, x1, x2, x3]"
    using length_4_cases[OF l] by blast
  have e: "[x0, x1, x2, x3] ! k = data ! (a + k)" if "k < 4" for k
    unfolding s[symmetric] by (rule nth_slice) (use assms that in simp_all)
  from e[of 0] e[of 1] e[of 2] e[of 3]
  have "x0 = data ! a" "x1 = data ! (a + 1)" "x2 = data ! (a + 2)" "x3 = data ! (a + 3)"
    by simp_all
  then show ?thesis by (simp add: s)
qed

lemma PartitionEntry_read_spec:
  assumes "off + 16 \<le> length data"
  shows "PartitionEntry_read (slice data off (off + 16)) = Inr (Some (spec_entry data off))"
proof -
  have l: "length (slice data off (off + 16)) = 16" using assms by (simp add: length_slice)
  obtain x0 x1 x2 x3 x4 x5 x6 x7 x8 x9 x10 x11 x12 x13 x14 x15
    where s: "slice data off (off + 16)
              = [x0, x1, x2, x3, x4, x5, x6, x7, x8, x9, x10, x11, x12, x13, x14, x15]"
    using length_16_cases[OF l] by blast
  have e: "[x0, x1, x2, x3, x4, x5, x6, x7, x8, x9, x10, x11, x12, x13, x14, x15] ! k
           = data ! (off + k)" if "k < 16" for k
    unfolding s[symmetric] by (rule nth_slice) (use assms that in simp_all)
  from e[of 0] e[of 1] e[of 2] e[of 3] e[of 4] e[of 5] e[of 6] e[of 7]
  have x: "x0 = data ! off" "x1 = data ! (off + 1)" "x2 = data ! (off + 2)"
    "x3 = data ! (off + 3)" "x4 = data ! (off + 4)" "x5 = data ! (off + 5)"
    "x6 = data ! (off + 6)" "x7 = data ! (off + 7)"
    by simp_all
  from e[of 8] e[of 9] e[of 10] e[of 11] e[of 12] e[of 13] e[of 14] e[of 15]
  have y: "x8 = data ! (off + 8)" "x9 = data ! (off + 9)" "x10 = data ! (off + 10)"
    "x11 = data ! (off + 11)" "x12 = data ! (off + 12)" "x13 = data ! (off + 13)"
    "x14 = data ! (off + 14)" "x15 = data ! (off + 15)"
    by simp_all
  have "PartitionEntry_read [x0, x1, x2, x3, x4, x5, x6, x7, x8, x9, x10, x11, x12, x13, x14, x15]
        = Inr (Some (spec_entry data off))"
    unfolding PartitionEntry_read_16 spec_chs_parse spec_u32_le_int
    by (simp add: ebind_def spec_entry_def x y split: option.split)
  then show ?thesis by (simp only: s)
qed

lemma MasterBootRecord_read_spec:
  assumes "length data = 512"
  shows "MasterBootRecord_read data ignore_valid_marker
         = (if ignore_valid_marker \<or> (data ! 0x1FE = 0x55 \<and> data ! 0x1FF = 0xAA)
            then Inr (Some (spec_record data)) else Inr None)"
proof -
  have u: "unpack_I (slice data 440 444)
           = Inr (spec_u32 (data ! 440) (data ! 441) (data ! 442) (data ! 443))"
    using slice_4[of 440 data] assms by (simp add: unpack_I_def spec_u32_def)
  have p: "PartitionEntry_read (slice data 446 462) = Inr (Some (spec_entry data 446))"
    "PartitionEntry_read (slice data 462 478) = Inr (Some (spec_entry data 462))"
    "PartitionEntry_read (slice data 478 494) = Inr (Some (spec_entry data 478))"
    "PartitionEntry_read (slice data 494 510) = Inr (Some (spec_entry data 494))"
    using PartitionEntry_read_spec[of 446 data] PartitionEntry_read_spec[of 462 data]
      PartitionEntry_read_spec[of 478 data] PartitionEntry_read_spec[of 494 data] assms
    by simp_all
  have "slice data 510 512 = [data ! 510, data ! 511]"
    using slice_2[of 510 data] assms by simp
  then have m: "unpack_H (slice data 510 512) = Inr (le_int [data ! 510, data ! 511])"
    by (simp add: unpack_H_def)
  show ?thesis
    by (simp add: MasterBootRecord_read_def UNIQUE_ID_OFFSET_def UNIQUE_ID_SIZE_def
          PARTITION_OFFSETS_def PARTITION_ENTRY_SIZE_def
          VALID_BOOT_SECTOR_OFFSET_def VALID_BOOT_SECTOR_SIZE_def u p m ebind_def
          marker_bytes spec_record_def del: le_int.simps)
qed

text \<open>
  Claim C6. For every 512-byte buffer whose bytes at offsets 0x1FE and 0x1FF are not
  0x55, 0xAA, decoding with validation returns \<open>None\<close> without raising, and decoding with
  the marker ignored returns the record that the specification assembles from the
  buffer; for every 512-byte buffer that does end in 0x55, 0xAA, decoding with
  validation returns that record.
\<close>

theorem MasterBootRecord_signature_gate:
  assumes "length data = 512"
  shows "(\<not> (data ! 0x1FE = 0x55 \<and> data ! 0x1FF = 0xAA) \<longrightarrow>
            MasterBootRecord_read data False = Inr None
            \<and> MasterBootRecord_read data True = Inr (Some (spec_record data)))
         \<and> (data ! 0x1FE = 0x55 \<and> data ! 0x1FF = 0xAA \<longrightarrow>
            MasterBootRecord_read data False = Inr (Some (spec_record data)))"
  using MasterBootRecord_read_spec[OF assms, of False]
    MasterBootRecord_read_spec[OF assms, of True]
  by simp

theorem MasterBootRecord_signature_gate_witness:
  "MasterBootRecord_read
     (replicate 440 0
      @ [0x78, 0x56, 0x34, 0x12, 0x00, 0x00,
         0x80, 0x20, 0x21, 0x00, 0x83, 0xFE, 0xFF, 0xFF,
         0x00, 0x08, 0x00, 0x00, 0x40, 0x42, 0x0F, 0x00]
      @ replicate 48 0 @ [0x55, 0xAA]) False
   = Inr (Some (spec_record
     (replicate 440 0
      @ [0x78, 0x56, 0x34, 0x12, 0x00, 0x00,
         0x80, 0x20, 0x21, 0x00, 0x83, 0xFE, 0xFF, 0xFF,
         0x00, 0x08, 0x00, 0x00, 0x40, 0x42, 0x0F, 0x00]
      @ replicate 48 0 @ [0x55, 0xAA])))
   \<and> MasterBootRecord_read
     (replicate 440 0
      @ [0x78, 0x56, 0x34, 0x12, 0x00, 0x00,
         0x80, 0x20, 0x21, 0x00, 0x83, 0xFE, 0xFF, 0xFF,
         0x00, 0x08, 0x00, 0x00, 0x40, 0x42, 0x0F, 0x00]
      @ replicate 48 0 @ [0x55, 0xAB]) False
   = Inr None
   \<and> MasterBootRecord_read
     (replicate 440 0
      @ [0x78, 0x56, 0x34, 0x12, 0x00, 0x00,
         0x80, 0x20, 0x21, 0x00, 0x83, 0xFE, 0xFF, 0xFF,
         0x00, 0x08, 0x00, 0x00, 0x40, 0x42, 0x0F, 0x00]
      @ replicate 48 0 @ [0x55, 0xAB]) True
   = Inr (Some (spec_record
     (replicate 440 0
      @ [0x78, 0x56, 0x34, 0x12, 0x00, 0x00,
         0x80, 0x20, 0x21, 0x00, 0x83, 0xFE, 0xFF, 0xFF,
         0x00, 0x08, 0x00, 0x00, 0x40, 0x42, 0x0F, 0x00]
      @ replicate 48 0 @ [0x55, 0xAB])))"
  using MasterBootRecord_signature_gate
    [of "replicate 440 0
      @ [0x78, 0x56, 0x34, 0x12, 0x00, 0x00,
         0x80, 0x20, 0x21, 0x00, 0x83, 0xFE, 0xFF, 0xFF,
         0x00, 0x08, 0x00, 0x00, 0x40, 0x42, 0x0F, 0x00]
      @ replicate 48 0 @ [0x55, 0xAA]"]
    MasterBootRecord_signature_gate
    [of "replicate 440 0
      @ [0x78, 0x56, 0x34, 0x12, 0x00, 0x00,
         0x80, 0x20, 0x21, 0x00, 0x83, 0xFE, 0xFF, 0xFF,
         0x00, 0x08, 0x00, 0x00, 0x40, 0x42, 0x0F, 0x00]
      @ replicate 48 0 @ [0x55, 0xAB]"]
  by (simp add: nth_append)

text \<open>The record of the first buffer above, field by field.\<close>

lemma spec_record_example:
  "spec_record
     (replicate 440 0
      @ [0x78, 0x56, 0x34, 0x12, 0x00, 0x00,
         0x80, 0x20, 0x21, 0x00, 0x83, 0xFE, 0xFF, 0xFF,
         0x00, 0x08, 0x00, 0x00, 0x40, 0x42, 0x0F, 0x00]
      @ replicate 48 0 @ [0x55, 0xAA])
   = \<lparr>unique_id = Some 0x12345678,
      partitions =
        [Some \<lparr>bootable = True, partition_type = Known LINUX,
               start_block_address = \<lparr>lba_sector = 2048\<rparr>, sector_count = 1000000,
               start_chs = Some \<lparr>cylinder = 0, head = 32, sector = 33\<rparr>,
               end_chs = Some \<lparr>cylinder = 1023, head = 254, sector = 63\<rparr>\<rparr>,
         Some \<lparr>bootable = False, partition_type = Known EMPTY,
               start_block_address = \<lparr>lba_sector = 0\<rparr>, sector_count = 0,
               start_chs = Some \<lparr>cylinder = 0, head = 0, sector = 0\<rparr>,
               end_chs = Some \<lparr>cylinder = 0, head = 0, sector = 0\<rparr>\<rparr>,
         Some \<lparr>bootable = False, partition_type = Known EMPTY,
               start_block_address = \<lparr>lba_sector = 0\<rparr>, sector_count = 0,
               start_chs = Some \<lparr>cylinder = 0, head = 0, sector = 0\<rparr>,
               end_chs = Some \<lparr>cylinder = 0, head = 0, sector = 0\<rparr>\<rparr>,
         Some \<lparr>bootable = False, partition_type = Known EMPTY,
               start_block_address = \<lparr>lba_sector = 0\<rparr>, sector_count = 0,
               start_chs = Some \<lparr>cylinder = 0, head = 0, sector = 0\<rparr>,
               end_chs = Some \<lparr>cylinder = 0, head = 0, sector = 0\<rparr>\<rparr>]\<rparr>"
  by (simp add: spec_record_def spec_entry_def spec_u32_def spec_chs_def nth_append
        PartitionId_call_def PartitionId_members_def EX_FAT_def HPFS_def QNX2_def)

section \<open>Encoding a master boot record\<close>

lemma write_partitions_None:
  "None \<in> set ps \<Longrightarrow> isl (write_partitions i ps wr)"
proof (induction ps arbitrary: i wr)
  case Nil
  then show ?case by simp
next
  case (Cons p ps)
  show ?case
  proof (cases "i < length PARTITION_OFFSETS")
    case False
    then show ?thesis by simp
  next
    case True
    show ?thesis
    proof (cases "PartitionEntry_option_bytes p")
      case (Inl e)
      with True show ?thesis by (simp add: ebind_def)
    next
      case (Inr bs)
      then have "p \<noteq> None" by (cases p) simp_all
      with Cons.prems have "None \<in> set ps" by auto
      from Cons.IH[OF this] True Inr show ?thesis by (simp add: ebind_def)
    qed
  qed
qed

lemma MasterBootRecord_bytes_None:
  assumes "None \<in> set (partitions mbr)"
  shows "isl (MasterBootRecord_bytes mbr)"
proof (cases "pack_I (unique_id_or_0 (unique_id mbr))")
  case (Inl e)
  then show ?thesis by (simp add: MasterBootRecord_bytes_def ebind_def)
next
  case (Inr uid)
  obtain e where "write_partitions 0 (partitions mbr)
      (wr_write (replicate 512 0) UNIQUE_ID_OFFSET uid) = Inl e"
    using write_partitions_None[OF assms] by (auto simp add: isl_def)
  with Inr show ?thesis by (simp add: MasterBootRecord_bytes_def ebind_def)
qed

text \<open>
  Claim C3. Encoding a record whose slots are absent does not write zero bytes:
  \<open>bytes(None)\<close> raises \<open>TypeError\<close> at the first absent slot.
\<close>

theorem MasterBootRecord_bytes_absent_slot:
  "MasterBootRecord_bytes \<lparr>unique_id = Some 0, partitions = [None, None, None, None]\<rparr>
   = Inl TypeError"
  by (simp add: MasterBootRecord_bytes_def pack_I_def ebind_def PARTITION_OFFSETS_def)

lemma length_wr_write:
  "pos + length bs \<le> length buf \<Longrightarrow> length (wr_write buf pos bs) = length buf"
  by (simp add: wr_write_def)

lemma slice_wr_write_same:
  "pos + length bs \<le> length buf \<Longrightarrow> b = pos + length bs \<Longrightarrow>
   slice (wr_write buf pos bs) pos b = bs"
  by (simp add: slice_def wr_write_def)

lemma nth_wr_write:
  assumes "pos + length bs \<le> length buf" "i < length buf"
  shows "wr_write buf pos bs ! i
         = (if pos \<le> i \<and> i < pos + length bs then bs ! (i - pos) else buf ! i)"
proof -
  have w: "wr_write buf pos bs = take pos buf @ bs @ drop (pos + length bs) buf"
    using assms by (simp add: wr_write_def)
  show ?thesis
  proof (cases "i < pos")
    case True
    then show ?thesis using assms by (simp add: w nth_append)
  next
    case False
    show ?thesis
    proof (cases "i < pos + length bs")
      case True
      with False have "i - pos < length bs" by arith
      with True False show ?thesis using assms by (simp add: w nth_append)
    next
      case F: False
      with False have a: "\<not> i - pos < length bs"
        "pos + length bs + (i - pos - length bs) = i" by arith+
      have "wr_write buf pos bs ! i = drop (pos + length bs) buf ! (i - pos - length bs)"
        using False a(1) assms by (simp add: w nth_append)
      also have "\<dots> = buf ! (pos + length bs + (i - pos - length bs))"
        using assms by (simp only: nth_drop)
      finally show ?thesis using F by (simp only: a(2)) simp
    qed
  qed
qed

lemma slice_wr_write_other:
  assumes "pos + length bs \<le> length buf" "b \<le> pos \<or> pos + length bs \<le> a"
  shows "slice (wr_write buf pos bs) a b = slice buf a b"
proof (rule nth_equalityI)
  have lw: "length (wr_write buf pos bs) = length buf"
    using assms(1) by (rule length_wr_write)
  show "length (slice (wr_write buf pos bs) a b) = length (slice buf a b)"
    by (simp add: length_slice lw)
  fix i assume "i < length (slice (wr_write buf pos bs) a b)"
  then have "i < b - a" "i < length buf - a" by (simp_all add: length_slice lw)
  then have i: "i < b - a" "a + i < length buf" by arith+
  then have "\<not> (pos \<le> a + i \<and> a + i < pos + length bs)" using assms(2) by auto
  then show "slice (wr_write buf pos bs) a b ! i = slice buf a b ! i"
    using i assms(1) by (auto simp add: nth_slice length_wr_write nth_wr_write)
qed

section \<open>Round trip of a master boot record\<close>

lemma pack_H_marker: "\<exists>m0 m1. pack_H VALID_MARKER = Inr [m0, m1] \<and> le_int [m0, m1] = VALID_MARKER"
proof -
  have "0 \<le> VALID_MARKER" "VALID_MARKER < 2 ^ 16" by (simp_all add: VALID_MARKER_def)
  from le_int_pack_H[OF this] this show ?thesis
    unfolding pack_H_def by (simp only: if_True simp_thms) blast
qed

lemma MasterBootRecord_roundtrip_slots:
  assumes ps: "partitions mbr = [Some e1, Some e2, Some e3, Some e4]"
    and r: "PartitionEntry_in_range e1" "PartitionEntry_in_range e2"
      "PartitionEntry_in_range e3" "PartitionEntry_in_range e4"
    and u: "0 \<le> unique_id_or_0 (unique_id mbr)" "unique_id_or_0 (unique_id mbr) < 2 ^ 32"
  shows "\<exists>bs m. MasterBootRecord_bytes mbr = Inr bs \<and> length bs = 512
           \<and> MasterBootRecord_read bs False = Inr (Some m)
           \<and> unique_id m = Some (unique_id_or_0 (unique_id mbr))
           \<and> list_all2 PartitionEntry_option_eq (partitions m) (partitions mbr)"
proof -
  obtain u0 u1 u2 u3 where uid: "pack_I (unique_id_or_0 (unique_id mbr)) = Inr [u0, u1, u2, u3]"
    "le_int [u0, u1, u2, u3] = unique_id_or_0 (unique_id mbr)"
    using pack_I_roundtrip[OF u] by blast
  obtain b1 d1 where p1: "PartitionEntry_bytes e1 = Inr b1" "length b1 = 16"
    "PartitionEntry_read b1 = Inr (Some d1)" "PartitionEntry_eq d1 e1"
    using PartitionEntry_roundtrip_eq[OF r(1)] by blast
  obtain b2 d2 where p2: "PartitionEntry_bytes e2 = Inr b2" "length b2 = 16"
    "PartitionEntry_read b2 = Inr (Some d2)" "PartitionEntry_eq d2 e2"
    using PartitionEntry_roundtrip_eq[OF r(2)] by blast
  obtain b3 d3 where p3: "PartitionEntry_bytes e3 = Inr b3" "length b3 = 16"
    "PartitionEntry_read b3 = Inr (Some d3)" "PartitionEntry_eq d3 e3"
    using PartitionEntry_roundtrip_eq[OF r(3)] by blast
  obtain b4 d4 where p4: "PartitionEntry_bytes e4 = Inr b4" "length b4 = 16"
    "PartitionEntry_read b4 = Inr (Some d4)" "PartitionEntry_eq d4 e4"
    using PartitionEntry_roundtrip_eq[OF r(4)] by blast
  obtain m0 m1 where mk: "pack_H VALID_MARKER = Inr [m0, m1]" "le_int [m0, m1] = VALID_MARKER"
    using pack_H_marker by blast
  define w0 where "w0 = wr_write (replicate 512 0) 440 [u0, u1, u2, u3]"
  define w1 where "w1 = wr_write w0 446 b1"
  define w2 where "w2 = wr_write w1 462 b2"
  define w3 where "w3 = wr_write w2 478 b3"
  define w4 where "w4 = wr_write w3 494 b4"
  define w5 where "w5 = wr_write w4 510 [m0, m1]"
  have l0: "length w0 = 512" by (simp add: w0_def length_wr_write)
  have l1: "length w1 = 512" by (simp add: w1_def length_wr_write l0 p1(2))
  have l2: "length w2 = 512" by (simp add: w2_def length_wr_write l1 p2(2))
  have l3: "length w3 = 512" by (simp add: w3_def length_wr_write l2 p3(2))
  have l4: "length w4 = 512" by (simp add: w4_def length_wr_write l3 p4(2))
  have l5: "length w5 = 512" by (simp add: w5_def length_wr_write l4)
  have enc: "MasterBootRecord_bytes mbr = Inr w5"
    by (simp add: MasterBootRecord_bytes_def ps uid(1) p1(1) p2(1) p3(1) p4(1) mk(1)
          ebind_def PARTITION_OFFSETS_def UNIQUE_ID_OFFSET_def VALID_BOOT_SECTOR_OFFSET_def
          w0_def w1_def w2_def w3_def w4_def w5_def)
  have s0: "slice w5 440 444 = [u0, u1, u2, u3]"
  proof -
    have "slice w5 440 444 = slice w4 440 444"
      unfolding w5_def by (rule slice_wr_write_other) (simp_all add: l4)
    also have "\<dots> = slice w3 440 444"
      unfolding w4_def by (rule slice_wr_write_other) (simp_all add: l3 p4(2))
    also have "\<dots> = slice w2 440 444"
      unfolding w3_def by (rule slice_wr_write_other) (simp_all add: l2 p3(2))
    also have "\<dots> = slice w1 440 444"
      unfolding w2_def by (rule slice_wr_write_other) (simp_all add: l1 p2(2))
    also have "\<dots> = slice w0 440 444"
      unfolding w1_def by (rule slice_wr_write_other) (simp_all add: l0 p1(2))
    also have "\<dots> = [u0, u1, u2, u3]"
      unfolding w0_def by (rule slice_wr_write_same) simp_all
    finally show ?thesis .
  qed
  have s1: "slice w5 446 462 = b1"
  proof -
    have "slice w5 446 462 = slice w4 446 462"
      unfolding w5_def by (rule slice_wr_write_other) (simp_all add: l4)
    also have "\<dots> = slice w3 446 462"
      unfolding w4_def by (rule slice_wr_write_other) (simp_all add: l3 p4(2))
    also have "\<dots> = slice w2 446 462"
      unfolding w3_def by (rule slice_wr_write_other) (simp_all add: l2 p3(2))
    also have "\<dots> = slice w1 446 462"
      unfolding w2_def by (rule slice_wr_write_other) (simp_all add: l1 p2(2))
    also have "\<dots> = b1"
      unfolding w1_def by (rule slice_wr_write_same) (simp_all add: l0 p1(2))
    finally show ?thesis .
  qed
  have s2: "slice w5 462 478 = b2"
  proof -
    have "slice w5 462 478 = slice w4 462 478"
      unfolding w5_def by (rule slice_wr_write_other) (simp_all add: l4)
    also have "\<dots> = slice w3 462 478"
      unfolding w4_def by (rule slice_wr_write_other) (simp_all add: l3 p4(2))
    also have "\<dots> = slice w2 462 478"
      unfolding w3_def by (rule slice_wr_write_other) (simp_all add: l2 p3(2))
    also have "\<dots> = b2"
      unfolding w2_def by (rule slice_wr_write_same) (simp_all add: l1 p2(2))
    finally show ?thesis .
  qed
  have s3: "slice w5 478 494 = b3"
  proof -
    have "slice w5 478 494 = slice w4 478 494"
      unfolding w5_def by (rule slice_wr_write_other) (simp_all add: l4)
    also have "\<dots> = slice w3 478 494"
      unfolding w4_def by (rule slice_wr_write_other) (simp_all add: l3 p4(2))
    also have "\<dots> = b3"
      unfolding w3_def by (rule slice_wr_write_same) (simp_all add: l2 p3(2))
    finally show ?thesis .
  qed
  have s4: "slice w5 494 510 = b4"
  proof -
    have "slice w5 494 510 = slice w4 494 510"
      unfolding w5_def by (rule slice_wr_write_other) (simp_all add: l4)
    also have "\<dots> = b4"
      unfolding w4_def by (rule slice_wr_write_same) (simp_all add: l3 p4(2))
    finally show ?thesis .
  qed
  have s5: "slice w5 510 512 = [m0, m1]"
    unfolding w5_def by (rule slice_wr_write_same) (simp_all add: l4)
  let ?m = "\<lparr>unique_id = Some (unique_id_or_0 (unique_id mbr)),
             partitions = [Some d1, Some d2, Some d3, Some d4]\<rparr>"
  have dec: "MasterBootRecord_read w5 False = Inr (Some ?m)"
    by (simp add: MasterBootRecord_read_def UNIQUE_ID_OFFSET_def UNIQUE_ID_SIZE_def
          PARTITION_OFFSETS_def PARTITION_ENTRY_SIZE_def VALID_BOOT_SECTOR_OFFSET_def
          VALID_BOOT_SECTOR_SIZE_def s0 s1 s2 s3 s4 s5 unpack_I_def unpack_H_def
          uid(2) mk(2) p1(3) p2(3) p3(3) p4(3) ebind_def
        del: le_int.simps)
  have "list_all2 PartitionEntry_option_eq (partitions ?m) (partitions mbr)"
    by (simp add: ps p1(4) p2(4) p3(4) p4(4))
  with enc l5 dec show ?thesis
    by (intro exI[of _ w5] exI[of _ ?m]) simp
qed

text \<open>
  Claim C1, amended. For every record whose four slots are present entries with
  in-range fields and whose disk signature is absent or in [0, 2^32), encoding succeeds
  with 512 bytes, and decoding them with validation returns a record, never \<open>None\<close>,
  whose slots are equal to the original ones and whose disk signature is the original
  one, with 0 in place of an absent signature; when the signature is present the decoded
  record is equal to the original under the generated \<open>==\<close>.
\<close>

theorem MasterBootRecord_roundtrip:
  assumes "partitions mbr = [Some e1, Some e2, Some e3, Some e4]"
    and "PartitionEntry_in_range e1" "PartitionEntry_in_range e2"
      "PartitionEntry_in_range e3" "PartitionEntry_in_range e4"
    and "case unique_id mbr of None \<Rightarrow> True | Some u \<Rightarrow> 0 \<le> u \<and> u < 2 ^ 32"
  shows "\<exists>bs m. MasterBootRecord_bytes mbr = Inr bs \<and> length bs = 512
           \<and> MasterBootRecord_read bs False = Inr (Some m)
           \<and> unique_id m = Some (case unique_id mbr of None \<Rightarrow> 0 | Some u \<Rightarrow> u)
           \<and> list_all2 PartitionEntry_option_eq (partitions m) (partitions mbr)
           \<and> (unique_id mbr \<noteq> None \<longrightarrow> MasterBootRecord_eq m mbr)"
proof -
  have u: "unique_id_or_0 (unique_id mbr) = (case unique_id mbr of None \<Rightarrow> 0 | Some u \<Rightarrow> u)"
    by (cases "unique_id mbr") simp_all
  have "0 \<le> unique_id_or_0 (unique_id mbr)" "unique_id_or_0 (unique_id mbr) < 2 ^ 32"
    using assms(6) by (simp_all add: u split: option.splits)
  from MasterBootRecord_roundtrip_slots[OF assms(1-5) this]
  obtain bs m where m: "MasterBootRecord_bytes mbr = Inr bs" "length bs = 512"
    "MasterBootRecord_read bs False = Inr (Some m)"
    "unique_id m = Some (unique_id_or_0 (unique_id mbr))"
    "list_all2 PartitionEntry_option_eq (partitions m) (partitions mbr)"
    by blast
  have "unique_id mbr \<noteq> None \<longrightarrow> MasterBootRecord_eq m mbr"
    using m(4,5) by (auto simp add: MasterBootRecord_eq_def u)
  with m show ?thesis by (auto simp add: u)
qed

theorem MasterBootRecord_roundtrip_witness:
  "\<exists>bs m. MasterBootRecord_bytes
             \<lparr>unique_id = Some 0x12345678,
              partitions =
                [Some \<lparr>bootable = True, partition_type = Known LINUX,
                       start_block_address = \<lparr>lba_sector = 2048\<rparr>, sector_count = 1000000,
                       start_chs = Some \<lparr>cylinder = 0, head = 32, sector = 33\<rparr>,
                       end_chs = Some \<lparr>cylinder = 1023, head = 254, sector = 63\<rparr>\<rparr>,
                 Some \<lparr>bootable = False, partition_type = Raw 0x99,
                       start_block_address = \<lparr>lba_sector = 1002048\<rparr>, sector_count = 4096,
                       start_chs = Some \<lparr>cylinder = 1023, head = 254, sector = 63\<rparr>,
                       end_chs = Some \<lparr>cylinder = 1023, head = 254, sector = 63\<rparr>\<rparr>,
                 Some \<lparr>bootable = False, partition_type = Raw 0,
                       start_block_address = \<lparr>lba_sector = 0\<rparr>, sector_count = 0,
                       start_chs = Some \<lparr>cylinder = 0, head = 0, sector = 0\<rparr>,
                       end_chs = Some \<lparr>cylinder = 0, head = 0, sector = 0\<rparr>\<rparr>,
                 Some \<lparr>bootable = False, partition_type = Raw 0,
                       start_block_address = \<lparr>lba_sector = 0\<rparr>, sector_count = 0,
                       start_chs = Some \<lparr>cylinder = 0, head = 0, sector = 0\<rparr>,
                       end_chs = Some \<lparr>cylinder = 0, head = 0, sector = 0\<rparr>\<rparr>]\<rparr> = Inr bs
        \<and> length bs = 512
        \<and> MasterBootRecord_read bs False = Inr (Some m)
        \<and> unique_id m = Some 0x12345678
        \<and> length (partitions m) = 4"
proof -
  let ?z = "\<lparr>bootable = False, partition_type = Raw 0,
             start_block_address = \<lparr>lba_sector = 0\<rparr>, sector_count = 0,
             start_chs = Some \<lparr>cylinder = 0, head = 0, sector = 0\<rparr>,
             end_chs = Some \<lparr>cylinder = 0, head = 0, sector = 0\<rparr>\<rparr>"
  let ?a = "\<lparr>bootable = True, partition_type = Known LINUX,
             start_block_address = \<lparr>lba_sector = 2048\<rparr>, sector_count = 1000000,
             start_chs = Some \<lparr>cylinder = 0, head = 32, sector = 33\<rparr>,
             end_chs = Some \<lparr>cylinder = 1023, head = 254, sector = 63\<rparr>\<rparr>"
  let ?b = "\<lparr>bootable = False, partition_type = Raw 0x99,
             start_block_address = \<lparr>lba_sector = 1002048\<rparr>, sector_count = 4096,
             start_chs = Some \<lparr>cylinder = 1023, head = 254, sector = 63\<rparr>,
             end_chs = Some \<lparr>cylinder = 1023, head = 254, sector = 63\<rparr>\<rparr>"
  let ?mbr = "\<lparr>unique_id = Some 0x12345678, partitions = [Some ?a, Some ?b, Some ?z, Some ?z]\<rparr>"
  have "partitions ?mbr = [Some ?a, Some ?b, Some ?z, Some ?z]" by simp
  moreover have "PartitionEntry_in_range ?a" "PartitionEntry_in_range ?b" "PartitionEntry_in_range ?z"
    by (simp_all add: PartitionEntry_in_range_def CHSAddress_in_range_def)
  moreover have "case unique_id ?mbr of None \<Rightarrow> True | Some u \<Rightarrow> 0 \<le> u \<and> u < 2 ^ 32"
    by simp
  ultimately show ?thesis
    using MasterBootRecord_roundtrip[of ?mbr ?a ?b ?z ?z] by (auto dest: list_all2_lengthD)
qed

lemma slice_replicate: "slice (replicate n x) a b = replicate (min (b - a) (n - a)) x"
  by (simp add: slice_def)

lemma le_int_replicate_0: "le_int (replicate n 0) = 0"
  by (induction n) simp_all

lemma wr_write_zero:
  "pos + n \<le> N \<Longrightarrow> wr_write (replicate N 0) pos (replicate n 0) = replicate N 0"
  by (simp add: wr_write_def replicate_add[symmetric] min_def)

lemma r16: "replicate 16 (0::byte) = [0,0,0,0,0,0,0,0,0,0,0,0,0,0,0,0]"
  by (simp add: numeral_eq_Suc)

lemma r4: "replicate 4 x = [x, x, x, x]"
  by (simp add: numeral_eq_Suc)

lemma zero_entry_bytes:
  "PartitionEntry_bytes \<lparr>bootable = False, partition_type = Raw 0,
               start_block_address = \<lparr>lba_sector = 0\<rparr>, sector_count = 0,
               start_chs = Some \<lparr>cylinder = 0, head = 0, sector = 0\<rparr>,
               end_chs = Some \<lparr>cylinder = 0, head = 0, sector = 0\<rparr>\<rparr> = Inr (replicate 16 0)"
  by (simp add: r16 PartitionEntry_bytes_def CHSAddress_bytes_def LogicalBlockAddress_bytes_def
        pack_I_def ebind_def)

lemma zero_entry_read:
  "PartitionEntry_read (replicate 16 0) =
   Inr (Some \<lparr>bootable = False, partition_type = Known EMPTY,
                           start_block_address = \<lparr>lba_sector = 0\<rparr>, sector_count = 0,
                           start_chs = Some \<lparr>cylinder = 0, head = 0, sector = 0\<rparr>,
                           end_chs = Some \<lparr>cylinder = 0, head = 0, sector = 0\<rparr>\<rparr>)"
  unfolding r16 PartitionEntry_read_16
  by (simp add: ebind_def PartitionId_call_def PartitionId_members_def)


lemma marker_pack: "pack_H VALID_MARKER = Inr [0x55, 0xAA]"
  by (simp add: pack_H_def VALID_MARKER_def)

lemma slice_zero_sector:
  "a + n \<le> 510 \<Longrightarrow> slice (replicate 510 0 @ [0x55, 0xAA :: byte]) a (a + n) = replicate n 0"
  by (simp add: slice_def min_def)

lemma slice_marker: "slice (replicate 510 0 @ [0x55, 0xAA :: byte]) 510 512 = [0x55, 0xAA]"
  by (simp add: slice_def)

text \<open>
  The claim as stated, for any optional disk signature, fails on a record without a
  signature: it encodes to an all-zero sector with the marker, which decodes to a record
  whose signature is 0, not absent.
\<close>

theorem MasterBootRecord_roundtrip_counterexample:
  "MasterBootRecord_bytes
     \<lparr>unique_id = None,
      partitions = replicate 4
        (Some \<lparr>bootable = False, partition_type = Raw 0,
               start_block_address = \<lparr>lba_sector = 0\<rparr>, sector_count = 0,
               start_chs = Some \<lparr>cylinder = 0, head = 0, sector = 0\<rparr>,
               end_chs = Some \<lparr>cylinder = 0, head = 0, sector = 0\<rparr>\<rparr>)\<rparr>
     = Inr (replicate 510 0 @ [0x55, 0xAA])
   \<and> MasterBootRecord_read (replicate 510 0 @ [0x55, 0xAA]) False
     = Inr (Some \<lparr>unique_id = Some 0,
                  partitions = replicate 4
                    (Some \<lparr>bootable = False, partition_type = Known EMPTY,
                           start_block_address = \<lparr>lba_sector = 0\<rparr>, sector_count = 0,
                           start_chs = Some \<lparr>cylinder = 0, head = 0, sector = 0\<rparr>,
                           end_chs = Some \<lparr>cylinder = 0, head = 0, sector = 0\<rparr>\<rparr>)\<rparr>)
   \<and> Some 0 \<noteq> (None :: int option)"
proof (intro conjI)
  have p: "pack_I 0 = Inr (replicate 4 0)" by (simp add: pack_I_def r4)
  show "MasterBootRecord_bytes
     \<lparr>unique_id = None,
      partitions = replicate 4
        (Some \<lparr>bootable = False, partition_type = Raw 0,
               start_block_address = \<lparr>lba_sector = 0\<rparr>, sector_count = 0,
               start_chs = Some \<lparr>cylinder = 0, head = 0, sector = 0\<rparr>,
               end_chs = Some \<lparr>cylinder = 0, head = 0, sector = 0\<rparr>\<rparr>)\<rparr>
     = Inr (replicate 510 0 @ [0x55, 0xAA])"
    unfolding MasterBootRecord_bytes_def r4
    by (simp add: p wr_write_zero zero_entry_bytes marker_pack ebind_def
          UNIQUE_ID_OFFSET_def PARTITION_OFFSETS_def VALID_BOOT_SECTOR_OFFSET_def)
       (simp add: wr_write_def)
  have s: "slice (replicate 510 0 @ [0x55, 0xAA :: byte]) 440 444 = replicate 4 0"
    "slice (replicate 510 0 @ [0x55, 0xAA :: byte]) 446 462 = replicate 16 0"
    "slice (replicate 510 0 @ [0x55, 0xAA :: byte]) 462 478 = replicate 16 0"
    "slice (replicate 510 0 @ [0x55, 0xAA :: byte]) 478 494 = replicate 16 0"
    "slice (replicate 510 0 @ [0x55, 0xAA :: byte]) 494 510 = replicate 16 0"
    using slice_zero_sector[of 440 4] slice_zero_sector[of 446 16] slice_zero_sector[of 462 16]
      slice_zero_sector[of 478 16] slice_zero_sector[of 494 16] by simp_all
  show "MasterBootRecord_read (replicate 510 0 @ [0x55, 0xAA]) False
     = Inr (Some \<lparr>unique_id = Some 0,
                  partitions = replicate 4
                    (Some \<lparr>bootable = False, partition_type = Known EMPTY,
                           start_block_address = \<lparr>lba_sector = 0\<rparr>, sector_count = 0,
                           start_chs = Some \<lparr>cylinder = 0, head = 0, sector = 0\<rparr>,
                           end_chs = Some \<lparr>cylinder = 0, head = 0, sector = 0\<rparr>\<rparr>)\<rparr>)"
    unfolding MasterBootRecord_read_def r4
    by (simp add: UNIQUE_ID_OFFSET_def UNIQUE_ID_SIZE_def PARTITION_OFFSETS_def
          PARTITION_ENTRY_SIZE_def VALID_BOOT_SECTOR_OFFSET_def VALID_BOOT_SECTOR_SIZE_def
          s slice_marker zero_entry_read unpack_I_def unpack_H_def le_int_replicate_0
          VALID_MARKER_def ebind_def)
qed simp

end
